theory Spec2Isabelle
  imports Complex_Main "HOL-Library.Multiset"
begin

section \<open>Numbers\<close>

text \<open>
  JavaScript numbers are modelled as real numbers: rounding and overflow of the
  binary floating-point format are not part of the model. A division whose divisor is
  zero yields \<open>NaN\<close>, \<open>Infinity\<close> or \<open>-Infinity\<close> in JavaScript; the model
  returns \<open>None\<close> there, and \<open>None\<close> stands for a value that is one of these three or
  that is computed from one of them.
\<close>

definition js_div :: "real \<Rightarrow> real \<Rightarrow> real option" where
  "js_div a b = (if b = 0 then None else Some (a / b))"

text \<open>\<open>[...].reduce((a, b) => a + b, 0)\<close> over numbers that may be non-finite.\<close>

definition js_add :: "real option \<Rightarrow> real option \<Rightarrow> real option" where
  "js_add a b = (case a of None \<Rightarrow> None | Some x \<Rightarrow> (case b of None \<Rightarrow> None | Some y \<Rightarrow> Some (x + y)))"

definition js_sum :: "real option list \<Rightarrow> real option" where
  "js_sum xs = foldl js_add (Some 0) xs"

section \<open>The portfolio builder (Landing.jsx, \<open>buildPortfolio\<close>)\<close>

text \<open>
  A startup of the mock data set, with the fields that \<open>buildPortfolio\<close> and
  \<open>runPortfolioMC\<close> read. The remaining fields (name, stage, description, ...) are
  copied along by the spread operator and never inspected.
\<close>

record startup =
  ident :: string
  sector :: string
  expectedIRR :: real
  pd12m :: real

text \<open>The investor profile \<open>{ minIRR, maxPD, risk }\<close>.\<close>

record profile =
  minIRR :: real
  maxPD :: real
  risk :: real

text \<open>\<open>{...s, rar, score}\<close> and \<open>{...s, weight}\<close>.\<close>

record scored =
  base :: startup
  rar :: real
  score :: real

record holding =
  entry :: scored
  weight :: "real option"

definition eligible :: "startup list \<Rightarrow> profile \<Rightarrow> startup list" where
  "eligible startups p = filter (\<lambda>s. expectedIRR s \<ge> minIRR p \<and> pd12m s \<le> maxPD p) startups"

definition pool :: "startup list \<Rightarrow> profile \<Rightarrow> startup list" where
  "pool startups p = (if length (eligible startups p) \<ge> 5 then eligible startups p else startups)"

definition riskFactor :: "profile \<Rightarrow> real" where
  "riskFactor p = risk p / 5"

definition score_of :: "real \<Rightarrow> startup \<Rightarrow> real" where
  "score_of rf s = expectedIRR s * rf + (1 - pd12m s) * (1 - rf * 0.5)"

text \<open>
  \<open>computeRAR\<close> comes from the mock data module and is a parameter here. The
  comparator \<open>(a, b) => b.score - a.score\<close> sorts by descending score;
  \<open>Array.prototype.sort\<close> is stable, as is \<open>sort_key\<close>.
\<close>

definition rank_pool :: "(startup \<Rightarrow> real) \<Rightarrow> real \<Rightarrow> startup list \<Rightarrow> scored list" where
  "rank_pool computeRAR rf candidates =
     sort_key (\<lambda>x. - score x)
       (map (\<lambda>s. \<lparr>base = s, rar = computeRAR s, score = score_of rf s\<rparr>) candidates)"

definition ranked :: "(startup \<Rightarrow> real) \<Rightarrow> startup list \<Rightarrow> profile \<Rightarrow> scored list" where
  "ranked computeRAR startups p = rank_pool computeRAR (riskFactor p) (pool startups p)"

text \<open>First loop: walk the ranked list, take a candidate when its sector is new.\<close>

fun pick_sectors :: "scored list \<Rightarrow> scored list \<Rightarrow> string set \<Rightarrow> scored list \<times> string set" where
  "pick_sectors [] selected sectors = (selected, sectors)"
| "pick_sectors (s # rest) selected sectors =
     (if length selected \<ge> 5 then (selected, sectors)
      else if sector (base s) \<notin> sectors
           then pick_sectors rest (selected @ [s]) (insert (sector (base s)) sectors)
           else pick_sectors rest selected sectors)"

text \<open>Second loop: walk the ranked list again, take what is not yet selected (by id).\<close>

fun fill_rest :: "scored list \<Rightarrow> scored list \<Rightarrow> scored list" where
  "fill_rest [] selected = selected"
| "fill_rest (s # rest) selected =
     (if length selected \<ge> 5 then selected
      else if find (\<lambda>x. ident (base x) = ident (base s)) selected = None
           then fill_rest rest (selected @ [s])
           else fill_rest rest selected)"

definition select :: "scored list \<Rightarrow> scored list" where
  "select sc = fill_rest sc (fst (pick_sectors sc [] {}))"

definition rawWeight :: "real \<Rightarrow> scored \<Rightarrow> real option" where
  "rawWeight rf s =
     (case js_div 1 (pd12m (base s) + 0.05) of
        None \<Rightarrow> None
      | Some safetyWeight \<Rightarrow>
          Some (safetyWeight * (1 - rf * 0.4) + expectedIRR (base s) * rf * 5))"

definition rawWeights :: "real \<Rightarrow> scored list \<Rightarrow> real option list" where
  "rawWeights rf selected = map (rawWeight rf) selected"

definition total :: "real \<Rightarrow> scored list \<Rightarrow> real option" where
  "total rf selected = js_sum (rawWeights rf selected)"

definition normalise :: "real option \<Rightarrow> real option \<Rightarrow> real option" where
  "normalise w t =
     (case w of None \<Rightarrow> None | Some x \<Rightarrow> (case t of None \<Rightarrow> None | Some y \<Rightarrow> js_div x y))"

definition weigh :: "real \<Rightarrow> scored list \<Rightarrow> holding list" where
  "weigh rf selected =
     map (\<lambda>s. \<lparr>entry = s, weight = normalise (rawWeight rf s) (total rf selected)\<rparr>) selected"

definition selected_of :: "(startup \<Rightarrow> real) \<Rightarrow> startup list \<Rightarrow> profile \<Rightarrow> scored list" where
  "selected_of computeRAR startups p = select (ranked computeRAR startups p)"

definition buildPortfolio :: "(startup \<Rightarrow> real) \<Rightarrow> startup list \<Rightarrow> profile \<Rightarrow> holding list" where
  "buildPortfolio computeRAR startups p =
     weigh (riskFactor p) (selected_of computeRAR startups p)"

text \<open>
  The risk-adjusted return as the startup detail page prints it
  (\<open>s.expectedIRR*(1-s.pd12m)\<close>), for the places that need a concrete \<open>computeRAR\<close>.
\<close>

definition rar_of :: "startup \<Rightarrow> real" where
  "rar_of s = expectedIRR s * (1 - pd12m s)"

text \<open>The sum of the weights of a portfolio, \<open>None\<close> when one of them is not finite.\<close>

definition weight_sum :: "holding list \<Rightarrow> real option" where
  "weight_sum pf = js_sum (map weight pf)"


section \<open>Random draws\<close>

text \<open>
  Both simulations read the ambient generator \<open>Math.random()\<close>; neither takes a seed.
  The generator is modelled by the sequence of values its successive calls return,
  \<open>r 0\<close>, \<open>r 1\<close>, ..., and every loop threads the index of the next unread draw.
  \<open>Math.random()\<close> returns a number in \<open>[0, 1)\<close>. At the draw \<open>0\<close>
  \<open>Math.log\<close> is \<open>-Infinity\<close>, which the real numbers do not have, so the statements
  about the simulations are made for draws strictly between 0 and 1.
\<close>

type_synonym rng = "nat \<Rightarrow> real"

definition draws_ok :: "rng \<Rightarrow> bool" where
  "draws_ok r = (\<forall>i. 0 < r i \<and> r i < 1)"

text \<open>Box-Muller: \<open>Math.sqrt(-2 * Math.log(u1)) * Math.cos(2 * Math.PI * u2)\<close>.\<close>

definition box_muller :: "real \<Rightarrow> real \<Rightarrow> real" where
  "box_muller u1 u2 = sqrt (- 2 * ln u1) * cos (2 * pi * u2)"

section \<open>The single-startup simulation (Methodology.jsx, \<open>runMonteCarlo\<close>)\<close>

definition baseMRR :: real where "baseMRR = 150000"
definition growthMean :: real where "growthMean = 0.12"
definition growthStd :: real where "growthStd = 0.08"
definition burnRate :: real where "burnRate = 200000"
definition initialCash :: real where "initialCash = 4400000"
definition months :: nat where "months = 12"
definition investmentCost :: real where "investmentCost = 1000000"

text \<open>\<open>growth = growthMean + growthStd * z; mrr = mrr * (1 + growth)\<close>.\<close>

definition grow :: "real \<Rightarrow> real \<Rightarrow> real" where
  "grow mrr z = (let growth = growthMean + growthStd * z in mrr * (1 + growth))"

text \<open>
  The loop over the months \<open>m = 0, ..., months - 1\<close>. It returns the cash, the MRR, the
  distress flag and the index of the next unread draw; \<open>break\<close> leaves the loop at the
  first month whose cash is not positive.
\<close>

fun month_loop :: "rng \<Rightarrow> nat list \<Rightarrow> nat \<Rightarrow> real \<Rightarrow> real \<Rightarrow> real \<times> real \<times> bool \<times> nat" where
  "month_loop r [] k cash mrr = (cash, mrr, False, k)"
| "month_loop r (m # ms) k cash mrr =
     (let u1 = r k; u2 = r (k + 1);
          z = box_muller u1 u2;
          mrr' = grow mrr z;
          cash' = cash + mrr' - burnRate
      in if cash' \<le> 0 then (cash', mrr', True, k + 2)
         else month_loop r ms (k + 2) cash' mrr')"

text \<open>
  The factor by which the MRR changes in month \<open>j\<close> of a trial whose first draw has
  index \<open>k\<close>.
\<close>

definition factor :: "rng \<Rightarrow> nat \<Rightarrow> nat \<Rightarrow> real" where
  "factor r k j = 1 + (growthMean + growthStd * box_muller (r (k + 2 * j)) (r (k + 2 * j + 1)))"

record trial_result =
  irr :: real
  distressed :: bool
  multiple :: real

definition trial :: "rng \<Rightarrow> nat \<Rightarrow> trial_result \<times> nat" where
  "trial r k =
     (case month_loop r [0..<months] k initialCash baseMRR of
        (cash, mrr, d, k') \<Rightarrow>
          (let terminalARR = mrr * 12;
               mult = (if d then 0 else max 0 (terminalARR * 8 / investmentCost));
               i = (if d then - 1 else mult powr (1 / 3) - 1)
           in (\<lparr>irr = i, distressed = d, multiple = mult\<rparr>, k')))"

fun trials :: "rng \<Rightarrow> nat \<Rightarrow> nat \<Rightarrow> trial_result list \<times> nat" where
  "trials r 0 k = ([], k)"
| "trials r (Suc n) k =
     (case trial r k of
        (res, k') \<Rightarrow> (case trials r n k' of (rest, k'') \<Rightarrow> (res # rest, k'')))"

text \<open>
  The histogram buckets; the label, a rendering of \<open>(i - 2) * 30\<close> as a percentage, is
  left out.
\<close>

record bucket =
  min_b :: real
  max_b :: real
  count_b :: nat

definition empty_buckets :: "bucket list" where
  "empty_buckets =
     map (\<lambda>i. \<lparr>min_b = (real i - 2) * 0.3, max_b = (real i - 1) * 0.3, count_b = 0\<rparr>) [0..<12]"

definition bucket_index :: "real \<Rightarrow> nat" where
  "bucket_index x = nat (min 11 (max 0 (\<lfloor>(x + 0.6) / 0.3\<rfloor> + 2)))"

definition count_irr :: "bucket list \<Rightarrow> real \<Rightarrow> bucket list" where
  "count_irr bs x =
     (let idx = bucket_index x
      in if idx < length bs then bs[idx := (bs ! idx)\<lparr>count_b := Suc (count_b (bs ! idx))\<rparr>]
         else bs)"

text \<open>\<open>irrs.length || 1\<close>: the divisor of the mean, 1 when no trial survived.\<close>

definition mean_divisor :: "real list \<Rightarrow> real" where
  "mean_divisor irrs = (if length irrs = 0 then 1 else real (length irrs))"

record mc_summary =
  pd :: "real option"
  meanIRR :: "real option"
  rar_mc :: "real option"
  buckets :: "bucket list"
  n_sims :: nat
  distressedCount :: nat

definition summarise :: "trial_result list \<Rightarrow> nat \<Rightarrow> mc_summary" where
  "summarise results n =
     (let pd' = js_div (real (length (filter distressed results))) (real n);
          irrs = map irr (filter (\<lambda>res. \<not> distressed res) results);
          mean = js_div (sum_list irrs) (mean_divisor irrs)
      in \<lparr>pd = pd',
          meanIRR = mean,
          rar_mc = (case mean of None \<Rightarrow> None
                    | Some m \<Rightarrow> map_option (\<lambda>q. m * (1 - q)) pd'),
          buckets = foldl count_irr empty_buckets irrs,
          n_sims = n,
          distressedCount = length (filter distressed results)\<rparr>)"

definition runMonteCarlo :: "rng \<Rightarrow> nat \<Rightarrow> mc_summary" where
  "runMonteCarlo r n = summarise (fst (trials r n 0)) n"

section \<open>The portfolio projection (Landing.jsx, \<open>runPortfolioMC\<close>)\<close>

text \<open>
  \<open>runPortfolioMC\<close> reads the expected IRR, the default probability and the weight of
  each holding. It is modelled for portfolios whose weights are finite numbers.
\<close>

record position =
  irr_h :: real
  pd_h :: real
  weight_h :: real

definition position_of :: "holding \<Rightarrow> position option" where
  "position_of h =
     map_option (\<lambda>w. \<lparr>irr_h = expectedIRR (base (entry h)), pd_h = pd12m (base (entry h)),
                       weight_h = w\<rparr>) (weight h)"

text \<open>The threshold of the distress draw, \<open>holding.pd12m * (year / 2)\<close>.\<close>

definition hazard :: "position \<Rightarrow> nat \<Rightarrow> real" where
  "hazard h year = pd_h h * (real year / 2)"

fun holdings_loop :: "rng \<Rightarrow> nat \<Rightarrow> position list \<Rightarrow> nat \<Rightarrow> real \<Rightarrow> real \<times> nat" where
  "holdings_loop r year [] k yearReturn = (yearReturn, k)"
| "holdings_loop r year (h # hs) k yearReturn =
     (let u1 = r k; u2 = r (k + 1);
          z = box_muller u1 u2;
          annualIRR = irr_h h + 0.15 * z;
          distress = (r (k + 2) < hazard h year);
          contrib = (if distress then - weight_h h * 0.6 else weight_h h * annualIRR)
      in holdings_loop r year hs (k + 3) (yearReturn + contrib))"

fun years_loop :: "rng \<Rightarrow> position list \<Rightarrow> nat list \<Rightarrow> nat \<Rightarrow> real \<Rightarrow> real list \<Rightarrow> real list \<times> nat" where
  "years_loop r pf [] k val yearlyValues = (yearlyValues, k)"
| "years_loop r pf (year # ys) k val yearlyValues =
     (case holdings_loop r year pf k 0 of
        (yearReturn, k') \<Rightarrow>
          (let val' = val * (1 + yearReturn)
           in years_loop r pf ys k' val' (yearlyValues @ [max 0 val'])))"

definition path :: "rng \<Rightarrow> position list \<Rightarrow> nat \<Rightarrow> real list \<times> nat" where
  "path r pf k = years_loop r pf [1..<6] k 1 [1]"

fun sims_loop :: "rng \<Rightarrow> position list \<Rightarrow> nat \<Rightarrow> nat \<Rightarrow> real list list \<times> nat" where
  "sims_loop r pf 0 k = ([], k)"
| "sims_loop r pf (Suc n) k =
     (case path r pf k of
        (yearlyValues, k') \<Rightarrow> (case sims_loop r pf n k' of (rest, k'') \<Rightarrow> (yearlyValues # rest, k'')))"

text \<open>
  \<open>sorted[Math.floor(sorted.length * p)]\<close>; an index outside the array reads
  \<open>undefined\<close>, here \<open>None\<close>.
\<close>

definition getPercentile :: "real list \<Rightarrow> real \<Rightarrow> real option" where
  "getPercentile arr p =
     (let sorted = sort arr; i = \<lfloor>real (length sorted) * p\<rfloor>
      in if 0 \<le> i \<and> nat i < length sorted then Some (sorted ! nat i) else None)"

text \<open>\<open>+x.toFixed(1)\<close>: the nearest multiple of one tenth, the larger magnitude at a tie.\<close>

definition toFixed1 :: "real \<Rightarrow> real" where
  "toFixed1 x =
     (if x < 0 then - (real_of_int \<lfloor>- x * 10 + 1 / 2\<rfloor> / 10)
      else real_of_int \<lfloor>x * 10 + 1 / 2\<rfloor> / 10)"

definition cents :: "real list \<Rightarrow> real \<Rightarrow> real option" where
  "cents vals p = map_option (\<lambda>v. toFixed1 (v * 100)) (getPercentile vals p)"

record chart_row =
  year_label :: string
  p10 :: "real option"
  p25 :: "real option"
  p50 :: "real option"
  p75 :: "real option"
  p90 :: "real option"

definition label_of :: "nat \<Rightarrow> string" where
  "label_of year = (if year = 0 then ''Now'' else [''Y0'', ''Y1'', ''Y2'', ''Y3'', ''Y4'', ''Y5''] ! year)"

definition chart_row_of :: "real list list \<Rightarrow> nat \<Rightarrow> chart_row" where
  "chart_row_of paths year =
     (let vals = map (\<lambda>p. p ! year) paths
      in \<lparr>year_label = label_of year,
          p10 = cents vals 0.10, p25 = cents vals 0.25, p50 = cents vals 0.50,
          p75 = cents vals 0.75, p90 = cents vals 0.90\<rparr>)"

record projection =
  chartData :: "chart_row list"
  pd_pf :: "real option"
  n_pf :: nat

definition runPortfolioMC :: "rng \<Rightarrow> position list \<Rightarrow> nat \<Rightarrow> projection" where
  "runPortfolioMC r pf n =
     (let paths = fst (sims_loop r pf n 0)
      in \<lparr>chartData = map (chart_row_of paths) [0..<6],
          pd_pf = js_div (real (length (filter (\<lambda>p. p ! 5 < 0.5) paths))) (real n),
          n_pf = n\<rparr>)"


section \<open>Dollar tickets\<close>



section \<open>Example inputs\<close>

definition mk :: "string \<Rightarrow> string \<Rightarrow> real \<Rightarrow> real \<Rightarrow> startup" where
  "mk i sc ir q = \<lparr>ident = i, sector = sc, expectedIRR = ir, pd12m = q\<rparr>"

text \<open>Six startups, the two best ranked in the same sector.\<close>

definition six :: "startup list" where
  "six = [mk ''s1'' ''health'' 0.6 0, mk ''s2'' ''health'' 0.5 0, mk ''s3'' ''fintech'' 0.4 0,
          mk ''s4'' ''climate'' 0.3 0, mk ''s5'' ''saas'' 0.2 0, mk ''s6'' ''robotics'' 0.1 0]"


definition open_profile :: profile where
  "open_profile = \<lparr>minIRR = 0, maxPD = 1, risk = 5\<rparr>"

definition default_profile :: profile where
  "default_profile = \<lparr>minIRR = 0.25, maxPD = 0.20, risk = 3\<rparr>"

text \<open>A single startup whose raw weight is zero at risk tolerance 5.\<close>

definition cancelling :: "startup list" where
  "cancelling = [mk ''s1'' ''saas'' (- 0.12) 0.95]"

definition keen_profile :: profile where
  "keen_profile = \<lparr>minIRR = 0.25, maxPD = 0.20, risk = 5\<rparr>"

text \<open>A single startup that fails both filters of the default profile.\<close>

definition weak :: "startup list" where
  "weak = [mk ''s1'' ''saas'' 0.1 0.5]"


text \<open>Draws that make every normal variate zero and no holding of \<open>solo\<close> distressed.\<close>

definition calm :: rng where
  "calm = (\<lambda>i. 1 / 4)"

text \<open>Draws that make every normal variate \<open>-400\<close>: each trial is distressed in month 0.\<close>

definition stormy :: rng where
  "stormy = (\<lambda>i. if even i then exp (- 80000) else 1 / 2)"

text \<open>As \<open>calm\<close>, but the first distress draw is low.\<close>

definition shaken :: rng where
  "shaken = (\<lambda>i. if i = 2 then 1 / 100 else 1 / 4)"

text \<open>As \<open>calm\<close> on the first 24 draws, different afterwards.\<close>

definition late :: rng where
  "late = (\<lambda>i. if i < 24 then 1 / 4 else 1 / 2)"

text \<open>
  As \<open>calm\<close>, but with a low distress draw in the first \<open>s\<close> years of simulation
  \<open>s\<close> of a one-holding portfolio, for \<open>s = 1, 2, 3\<close>.
\<close>

definition staggered :: rng where
  "staggered = (\<lambda>i. if i \<in> {17, 32, 35, 47, 50, 53} then 1 / 100 else 1 / 4)"

definition solo :: "position list" where
  "solo = [\<lparr>irr_h = 0.2, pd_h = 0.1, weight_h = 1\<rparr>]"

definition risky :: position where
  "risky = \<lparr>irr_h = 0.3, pd_h = 0.5, weight_h = 0.2\<rparr>"

lemmas builder_defs =
  buildPortfolio_def weigh_def total_def rawWeights_def rawWeight_def js_sum_def js_add_def
  js_div_def normalise_def selected_of_def select_def ranked_def rank_pool_def pool_def
  eligible_def mk_def riskFactor_def score_of_def

section \<open>Sums of weights\<close>

lemma js_add_simps [simp]:
  "js_add None b = None" "js_add a None = None" "js_add (Some x) (Some y) = Some (x + y)"
  by (simp_all add: js_add_def split: option.splits)

lemma foldl_js_add_None: "foldl js_add None xs = None"
  by (induction xs) simp_all

lemma foldl_js_add_Some:
  "foldl js_add (Some a) (map Some ys) = Some (a + sum_list ys)"
  by (induction ys arbitrary: a) (simp_all add: add.assoc)

lemma foldl_js_add_SomeD:
  "foldl js_add (Some a) xs = Some t \<Longrightarrow> \<exists>ys. xs = map Some ys \<and> t = a + sum_list ys"
proof (induction xs arbitrary: a)
  case Nil
  then show ?case by simp
next
  case (Cons x xs)
  show ?case
  proof (cases x)
    case None
    with Cons.prems show ?thesis by (simp add: foldl_js_add_None)
  next
    case (Some y)
    with Cons.prems have "foldl js_add (Some (a + y)) xs = Some t"
      by simp
    from Cons.IH [OF this] obtain ys where "xs = map Some ys" "t = a + y + sum_list ys"
      by blast
    with Some have "x # xs = map Some (y # ys) \<and> t = a + sum_list (y # ys)"
      by simp
    then show ?thesis by (rule exI)
  qed
qed

lemma js_sum_Some: "js_sum (map Some ys) = Some (sum_list ys)"
  by (simp add: js_sum_def foldl_js_add_Some)

lemma js_sum_SomeD: "js_sum xs = Some t \<Longrightarrow> \<exists>ys. xs = map Some ys \<and> t = sum_list ys"
  by (auto simp: js_sum_def dest: foldl_js_add_SomeD)

lemma sum_list_divide: "sum_list (map (\<lambda>x. x / t) (ys::real list)) = sum_list ys / t"
  by (induction ys) (simp_all add: add_divide_distrib)

lemma weigh_weights:
  assumes "total rf sel = Some t" and "t \<noteq> 0"
  shows "\<exists>rs. map (rawWeight rf) sel = map Some rs \<and> sum_list rs = t
           \<and> map weight (weigh rf sel) = map Some (map (\<lambda>r. r / t) rs)"
proof -
  from assms(1) obtain rs where rs: "map (rawWeight rf) sel = map Some rs" "t = sum_list rs"
    unfolding total_def rawWeights_def by (auto dest: js_sum_SomeD)
  have "map weight (weigh rf sel) = map (\<lambda>w. normalise w (Some t)) (map (rawWeight rf) sel)"
    by (simp add: weigh_def assms(1) comp_def)
  also have "\<dots> = map Some (map (\<lambda>r. r / t) rs)"
    using assms(2) by (simp add: rs(1) normalise_def js_div_def comp_def)
  finally show ?thesis using rs by blast
qed

lemma entry_weigh: "map entry (weigh rf sel) = sel"
  by (simp add: weigh_def comp_def)

lemma rawWeight_pos:
  assumes "0 \<le> pd12m (base s)" "0 \<le> expectedIRR (base s)" "0 \<le> rf" "rf \<le> 1"
  shows "\<exists>r. rawWeight rf s = Some r \<and> 0 < r"
proof -
  have d: "0 < pd12m (base s) + 0.05" using assms(1) by simp
  have a: "0 < 1 / (pd12m (base s) + 0.05) * (1 - rf * 0.4)"
    using d assms(3,4) by (intro mult_pos_pos) simp_all
  have b: "0 \<le> expectedIRR (base s) * rf * 5"
    using assms(2,3) by simp
  from a b have "0 < 1 / (pd12m (base s) + 0.05) * (1 - rf * 0.4) + expectedIRR (base s) * rf * 5"
    by (rule add_pos_nonneg)
  moreover have "rawWeight rf s =
      Some (1 / (pd12m (base s) + 0.05) * (1 - rf * 0.4) + expectedIRR (base s) * rf * 5)"
    using d by (simp add: rawWeight_def js_div_def)
  ultimately show ?thesis by simp
qed

lemma total_pos:
  assumes "sel \<noteq> []"
    and "\<forall>s\<in>set sel. 0 \<le> pd12m (base s) \<and> 0 \<le> expectedIRR (base s)"
    and "0 \<le> rf" "rf \<le> 1"
  shows "\<exists>t. total rf sel = Some t \<and> 0 < t"
proof -
  have "\<exists>rs. map (rawWeight rf) sel = map Some rs \<and> (\<forall>r\<in>set rs. 0 < r)"
    using assms(2)
  proof (induction sel)
    case Nil
    then show ?case by simp
  next
    case (Cons s sel)
    then obtain rs where rs: "map (rawWeight rf) sel = map Some rs" "\<forall>r\<in>set rs. 0 < r"
      by auto
    from Cons.prems rawWeight_pos [of s rf] assms(3,4)
    obtain r where "rawWeight rf s = Some r" "0 < r" by auto
    with rs have "map (rawWeight rf) (s # sel) = map Some (r # rs) \<and> (\<forall>x\<in>set (r # rs). 0 < x)"
      by simp
    then show ?case by blast
  qed
  then obtain rs where rs: "map (rawWeight rf) sel = map Some rs" "\<forall>r\<in>set rs. 0 < r"
    by blast
  from rs(1) assms(1) have "rs \<noteq> []" by auto
  with rs(2) have "0 < sum_list rs"
    by (induction rs) (auto intro: add_pos_nonneg sum_list_nonneg less_imp_le)
  with rs(1) show ?thesis
    by (simp add: total_def rawWeights_def js_sum_Some)
qed

text \<open>
  Claim C1, as amended. When the raw weights of the selected startups have a finite,
  non-zero total, every weight of the portfolio is a finite number, the weights sum
  to 1 (so within \<open>1e-6\<close> of 1), and the holdings are exactly the selected startups, in
  order. A non-zero total implies that the selection is not empty.
\<close>

theorem buildPortfolio_weights_sum_one:
  assumes "total (riskFactor p) (selected_of c startups p) = Some t" and "t \<noteq> 0"
  shows "\<exists>ws. map weight (buildPortfolio c startups p) = map Some ws
            \<and> sum_list ws = 1 \<and> \<bar>sum_list ws - 1\<bar> < 1 / 10 ^ 6
            \<and> weight_sum (buildPortfolio c startups p) = Some 1
            \<and> map entry (buildPortfolio c startups p) = selected_of c startups p
            \<and> selected_of c startups p \<noteq> []"
proof -
  from weigh_weights [OF assms] obtain rs where
    rs: "sum_list rs = t"
        "map weight (buildPortfolio c startups p) = map Some (map (\<lambda>r. r / t) rs)"
    unfolding buildPortfolio_def by blast
  let ?ws = "map (\<lambda>r. r / t) rs"
  have one: "sum_list ?ws = 1"
    using assms(2) rs(1) by (simp add: sum_list_divide)
  have ne: "selected_of c startups p \<noteq> []"
    using assms by (auto simp: total_def rawWeights_def js_sum_def)
  have ws: "weight_sum (buildPortfolio c startups p) = Some 1"
    unfolding weight_sum_def rs(2) js_sum_Some one ..
  have en: "map entry (buildPortfolio c startups p) = selected_of c startups p"
    by (simp add: buildPortfolio_def entry_weigh)
  from rs(2) one ws en ne show ?thesis
    by (intro exI [of _ ?ws]) simp
qed


theorem buildPortfolio_weights_sum_one_witness:
  "total (riskFactor open_profile) (selected_of rar_of six open_profile) = Some 68
   \<and> (68::real) \<noteq> 0
   \<and> weight_sum (buildPortfolio rar_of six open_profile) = Some 1
   \<and> map entry (buildPortfolio rar_of six open_profile) = selected_of rar_of six open_profile"
proof -
  have t: "total (riskFactor open_profile) (selected_of rar_of six open_profile) = Some 68"
    by (simp add: builder_defs six_def open_profile_def)
  from buildPortfolio_weights_sum_one [OF t] t show ?thesis by auto
qed

text \<open>
  Claim C1 as stated fails where the raw weights total zero: the selection has one
  member, its raw weight is \<open>1 / (0.95 + 0.05) * (1 - 0.4) + (-0.12) * 1 * 5 = 0\<close>, and
  \<open>0 / 0\<close> is not a number.
\<close>

theorem buildPortfolio_zero_total_counterexample:
  "length (selected_of rar_of cancelling keen_profile) = 1
   \<and> total (riskFactor keen_profile) (selected_of rar_of cancelling keen_profile) = Some 0
   \<and> map weight (buildPortfolio rar_of cancelling keen_profile) = [None]
   \<and> weight_sum (buildPortfolio rar_of cancelling keen_profile) = None"
  by (simp add: builder_defs weight_sum_def cancelling_def keen_profile_def)

section \<open>Ranking and selection\<close>
















lemma fill_rest_length_mono: "length sel \<le> length (fill_rest xs sel)"
  by (induction xs sel rule: fill_rest.induct) (auto intro: order_trans [rotated])



lemma upt_0_Suc: "[0..<Suc n] = 0 # map Suc [0..<n]"
  by (simp add: upt_conv_Cons map_Suc_upt del: upt_Suc)









section \<open>The fallback to the full list\<close>

text \<open>
  Claim C10. With fewer than five eligible startups the pool is the full list, and the
  portfolio is built from the ranking of the full list: the result is an ordinary list
  of holdings, with nothing that tells the fallback happened. Such a portfolio can hold
  a startup that fails both filters.
\<close>

theorem buildPortfolio_fallback:
  "(length (eligible startups p) < 5 \<longrightarrow>
      pool startups p = startups
      \<and> buildPortfolio c startups p
          = weigh (riskFactor p) (select (rank_pool c (riskFactor p) startups)))
   \<and> (\<exists>ss q. length (eligible ss q) < 5
        \<and> (\<exists>h\<in>set (buildPortfolio rar_of ss q).
              expectedIRR (base (entry h)) < minIRR q \<and> maxPD q < pd12m (base (entry h))))"
proof -
  have "length (eligible weak default_profile) < 5
        \<and> (\<exists>h\<in>set (buildPortfolio rar_of weak default_profile).
              expectedIRR (base (entry h)) < minIRR default_profile
              \<and> maxPD default_profile < pd12m (base (entry h)))"
    by (simp add: builder_defs weak_def default_profile_def)
  then have "\<exists>ss q. length (eligible ss q) < 5
        \<and> (\<exists>h\<in>set (buildPortfolio rar_of ss q).
              expectedIRR (base (entry h)) < minIRR q \<and> maxPD q < pd12m (base (entry h)))"
    by blast
  then show ?thesis
    by (simp add: pool_def buildPortfolio_def selected_of_def ranked_def)
qed

theorem buildPortfolio_fallback_witness:
  "length (eligible weak default_profile) < 5
   \<and> pool weak default_profile = weak
   \<and> buildPortfolio rar_of weak default_profile
       = weigh (riskFactor default_profile)
           (select (rank_pool rar_of (riskFactor default_profile) weak))"
proof -
  have "length (eligible weak default_profile) < 5"
    by (simp add: eligible_def weak_def mk_def default_profile_def)
  with buildPortfolio_fallback [of weak default_profile rar_of] show ?thesis by simp
qed

section \<open>The simulations at the example draws\<close>

lemma box_muller_quarter: "box_muller u (1 / 4) = 0"
proof -
  have "2 * pi * (1 / 4) = pi / 2" by simp
  then show ?thesis by (simp add: box_muller_def)
qed

lemma box_muller_tail: "box_muller (exp (- 80000)) (1 / 2) = - 400"
proof -
  have "sqrt (160000::real) = 400"
    by (rule real_sqrt_unique) simp_all
  then show ?thesis by (simp add: box_muller_def)
qed

lemma draws_ok_calm: "draws_ok calm"
  by (simp add: draws_ok_def calm_def)

lemma draws_ok_stormy: "draws_ok stormy"
  by (simp add: draws_ok_def stormy_def)

lemmas mc_consts = baseMRR_def growthMean_def growthStd_def burnRate_def initialCash_def
  months_def investmentCost_def

lemma trial_stormy: "even k \<Longrightarrow> trial stormy k = (\<lparr>irr = - 1, distressed = True, multiple = 0\<rparr>, k + 2)"
  by (simp add: trial_def stormy_def box_muller_tail grow_def mc_consts upt_rec [of 0] Let_def)

lemma trial_calm_d: "distressed (fst (trial calm k)) = False"
  by (simp add: trial_def calm_def box_muller_quarter grow_def mc_consts Let_def upt_rec split: prod.splits)

lemma trials_Suc:
  "fst (trials r (Suc n) k) = fst (trial r k) # fst (trials r n (snd (trial r k)))"
  "snd (trials r (Suc n) k) = snd (trials r n (snd (trial r k)))"
  by (simp_all add: split_beta)

lemma sims_loop_Suc:
  "fst (sims_loop r pf (Suc n) k) = fst (path r pf k) # fst (sims_loop r pf n (snd (path r pf k)))"
  "snd (sims_loop r pf (Suc n) k) = snd (sims_loop r pf n (snd (path r pf k)))"
  by (simp_all add: split_beta)

lemma years_loop_Cons:
  "years_loop r pf (year # ys) k val yearlyValues =
     years_loop r pf ys (snd (holdings_loop r year pf k 0))
       (val * (1 + fst (holdings_loop r year pf k 0)))
       (yearlyValues @ [max 0 (val * (1 + fst (holdings_loop r year pf k 0)))])"
  by (simp add: split_beta Let_def)

lemma trials_stormy:
  "even k \<Longrightarrow> fst (trials stormy n k) = replicate n \<lparr>irr = - 1, distressed = True, multiple = 0\<rparr>"
  by (induction n arbitrary: k) (simp_all add: trials_Suc trial_stormy del: trials.simps(2))

lemma month_loop_calm:
  "month_loop calm [0..<months] 0 initialCash baseMRR
   = (115477874556842162368 / 19073486328125, 11146476724282195968 / 19073486328125, False, 24)"
  by (simp add: calm_def box_muller_quarter grow_def mc_consts upt_rec Let_def)

lemma draws_ok_shaken: "draws_ok shaken"
  by (simp add: draws_ok_def shaken_def)

lemma draws_ok_late: "draws_ok late"
  by (simp add: draws_ok_def late_def)

lemma paths_calm: "fst (sims_loop calm solo 1 0) = [[1, 1.2, 1.44, 1.728, 2.0736, 2.48832]]"
  by (simp add: path_def solo_def calm_def box_muller_quarter hazard_def upt_rec Let_def)

lemma paths_shaken: "fst (sims_loop shaken solo 1 0) = [[1, 0.4, 0.48, 0.576, 0.6912, 0.82944]]"
  by (simp add: path_def solo_def shaken_def box_muller_quarter hazard_def upt_rec Let_def)

lemma p50_calm: "map p50 (chartData (runPortfolioMC calm solo 1))
   = [Some 100, Some 120, Some 144, Some 172.8, Some 207.4, Some 248.8]"
  unfolding runPortfolioMC_def paths_calm
  by (simp add: chart_row_of_def cents_def getPercentile_def toFixed1_def upt_rec Let_def)

lemma p50_shaken: "map p50 (chartData (runPortfolioMC shaken solo 1))
   = [Some 100, Some 40, Some 48, Some 57.6, Some 69.1, Some 82.9]"
  unfolding runPortfolioMC_def paths_shaken
  by (simp add: chart_row_of_def cents_def getPercentile_def toFixed1_def upt_rec Let_def)

lemma trials_calm: "map distressed (fst (trials calm 1 0)) = [False]"
  using trial_calm_d [of 0] by (simp add: split_beta)

lemma pd_calm: "pd (runMonteCarlo calm 1) = Some 0"
  using trials_calm by (simp add: runMonteCarlo_def summarise_def js_div_def Let_def split_beta trial_calm_d)

lemma pd_stormy: "pd (runMonteCarlo stormy 1) = Some 1"
  by (simp add: runMonteCarlo_def summarise_def js_div_def Let_def split_beta trial_stormy)

section \<open>Trials and paths\<close>

lemma trial_multiple:
  "0 \<le> multiple (fst (trial r k)) \<and> (distressed (fst (trial r k)) \<longrightarrow> multiple (fst (trial r k)) = 0)"
  by (simp add: trial_def Let_def split: prod.splits)

lemma trials_all:
  "(\<And>k. P (fst (trial r k))) \<Longrightarrow> \<forall>res\<in>set (fst (trials r n k)). P res"
proof (induction n arbitrary: k)
  case 0
  then show ?case by simp
next
  case (Suc n)
  then show ?case
    by (simp add: trials_Suc del: trials.simps(2))
qed

lemma trials_length: "length (fst (trials r n k)) = n"
  by (induction n arbitrary: k) (simp_all add: trials_Suc del: trials.simps(2))

lemma years_loop_nonneg:
  "\<forall>v\<in>set ys. 0 \<le> v \<Longrightarrow> \<forall>v\<in>set (fst (years_loop r pf yrs k val ys)). 0 \<le> v"
proof (induction yrs arbitrary: k val ys)
  case Nil
  then show ?case by simp
next
  case (Cons year yrs)
  let ?v = "val * (1 + fst (holdings_loop r year pf k 0))"
  from Cons.prems have "\<forall>v\<in>set (ys @ [max 0 ?v]). 0 \<le> v" by simp
  then have "\<forall>v\<in>set (fst (years_loop r pf yrs (snd (holdings_loop r year pf k 0)) ?v
                 (ys @ [max 0 ?v]))). 0 \<le> v"
    by (rule Cons.IH)
  then show ?case by (simp only: years_loop_Cons)
qed

lemma years_loop_length:
  "length (fst (years_loop r pf yrs k val ys)) = length ys + length yrs"
  by (induction yrs arbitrary: k val ys) (simp_all add: years_loop_Cons del: years_loop.simps(2))

lemma path_nonneg: "\<forall>v\<in>set (fst (path r pf k)). 0 \<le> v"
  unfolding path_def by (rule years_loop_nonneg) simp

lemma path_length: "length (fst (path r pf k)) = 6"
  unfolding path_def by (simp add: years_loop_length)

lemma sims_loop_all:
  "(\<And>k. P (fst (path r pf k))) \<Longrightarrow> \<forall>p\<in>set (fst (sims_loop r pf n k)). P p"
proof (induction n arbitrary: k)
  case 0
  then show ?case by simp
next
  case (Suc n)
  then show ?case
    by (simp add: sims_loop_Suc del: sims_loop.simps(2))
qed

lemma sims_loop_length: "length (fst (sims_loop r pf n k)) = n"
  by (induction n arbitrary: k) (simp_all add: sims_loop_Suc del: sims_loop.simps(2))

section \<open>Summary statistics when every trial fails\<close>

lemma mean_divisor_pos: "0 < mean_divisor irrs"
  by (simp add: mean_divisor_def)

lemma summarise_finite:
  assumes "0 < n"
  shows "\<exists>a b c. pd (summarise results n) = Some a \<and> meanIRR (summarise results n) = Some b
           \<and> rar_mc (summarise results n) = Some c"
proof -
  from assms have "real n \<noteq> 0" by simp
  moreover have "mean_divisor (map irr (filter (\<lambda>res. \<not> distressed res) results)) \<noteq> 0"
    using mean_divisor_pos [of "map irr (filter (\<lambda>res. \<not> distressed res) results)"] by simp
  ultimately show ?thesis
    by (simp add: summarise_def js_div_def Let_def)
qed

lemma summarise_all_failed:
  assumes "results \<noteq> []" and "\<forall>res\<in>set results. distressed res"
  shows "summarise results (length results)
         = \<lparr>pd = Some 1, meanIRR = Some 0, rar_mc = Some 0, buckets = empty_buckets,
             n_sims = length results, distressedCount = length results\<rparr>"
proof -
  from assms(2) have f: "filter distressed results = results"
    and g: "filter (\<lambda>res. \<not> distressed res) results = []"
    by (simp_all add: filter_empty_conv)
  from assms(1) have "real (length results) \<noteq> 0" by simp
  then show ?thesis
    by (simp add: summarise_def f g js_div_def mean_divisor_def Let_def)
qed

text \<open>
  Claim C8. In a run with at least one trial the default probability, the mean IRR
  and the risk-adjusted return are finite numbers. When every trial is distressed, no
  IRR is left to average, the divisor of the mean is replaced by 1, and the summary is
  default probability 1, mean IRR \<open>0 / 1 = 0\<close>, risk-adjusted return 0 and empty
  buckets.
\<close>

theorem all_failed_summary:
  assumes "draws_ok r" and "0 < n"
  shows "(\<exists>a b c. pd (runMonteCarlo r n) = Some a \<and> meanIRR (runMonteCarlo r n) = Some b
            \<and> rar_mc (runMonteCarlo r n) = Some c)
         \<and> ((\<forall>res\<in>set (fst (trials r n 0)). distressed res) \<longrightarrow>
              runMonteCarlo r n
                = \<lparr>pd = Some 1, meanIRR = Some 0, rar_mc = Some 0, buckets = empty_buckets,
                    n_sims = n, distressedCount = n\<rparr>
              \<and> mean_divisor (map irr (filter (\<lambda>res. \<not> distressed res) (fst (trials r n 0)))) = 1)"
proof (intro conjI impI)
  show "\<exists>a b c. pd (runMonteCarlo r n) = Some a \<and> meanIRR (runMonteCarlo r n) = Some b
            \<and> rar_mc (runMonteCarlo r n) = Some c"
    unfolding runMonteCarlo_def using assms(2) by (rule summarise_finite)
next
  let ?rs = "fst (trials r n 0)"
  assume a: "\<forall>res\<in>set ?rs. distressed res"
  have l: "length ?rs = n" by (rule trials_length)
  with assms(2) have ne: "?rs \<noteq> []" by auto
  from summarise_all_failed [OF ne a] l
  show "runMonteCarlo r n
         = \<lparr>pd = Some 1, meanIRR = Some 0, rar_mc = Some 0, buckets = empty_buckets,
             n_sims = n, distressedCount = n\<rparr>"
    by (simp add: runMonteCarlo_def)
  from a have "filter (\<lambda>res. \<not> distressed res) ?rs = []"
    by (simp add: filter_empty_conv)
  then show "mean_divisor (map irr (filter (\<lambda>res. \<not> distressed res) ?rs)) = 1"
    by (simp add: mean_divisor_def)
qed

theorem all_failed_summary_witness:
  "draws_ok stormy \<and> (0::nat) < 3
   \<and> map distressed (fst (trials stormy 3 0)) = [True, True, True]
   \<and> pd (runMonteCarlo stormy 3) = Some 1
   \<and> meanIRR (runMonteCarlo stormy 3) = Some 0
   \<and> rar_mc (runMonteCarlo stormy 3) = Some 0
   \<and> distressedCount (runMonteCarlo stormy 3) = 3"
proof -
  have t: "fst (trials stormy 3 0) = replicate 3 \<lparr>irr = - 1, distressed = True, multiple = 0\<rparr>"
    by (rule trials_stormy) simp
  then have a: "\<forall>res\<in>set (fst (trials stormy 3 0)). distressed res"
    and m: "map distressed (fst (trials stormy 3 0)) = [True, True, True]"
    by (simp_all add: numeral_3_eq_3)
  from all_failed_summary [OF draws_ok_stormy, of 3] a m draws_ok_stormy
  show ?thesis by simp
qed

section \<open>The monthly step\<close>

lemma month_loop_mrr:
  "month_loop r ms k cash mrr = (c, m', False, k')
   \<Longrightarrow> m' = mrr * (\<Prod>j<length ms. factor r k j) \<and> k' = k + 2 * length ms"
proof (induction ms arbitrary: k cash mrr)
  case Nil
  then show ?case by simp
next
  case (Cons a ms)
  let ?z = "box_muller (r k) (r (k + 1))"
  let ?mrr = "grow mrr ?z"
  let ?cash = "cash + ?mrr - burnRate"
  from Cons.prems have nd: "\<not> ?cash \<le> 0"
    by (auto simp: Let_def split: if_splits)
  with Cons.prems have "month_loop r ms (k + 2) ?cash ?mrr = (c, m', False, k')"
    by (simp add: Let_def)
  from Cons.IH [OF this]
  have m: "m' = ?mrr * (\<Prod>j<length ms. factor r (k + 2) j)" and k: "k' = k + 2 + 2 * length ms"
    by simp_all
  have sh: "(\<Prod>j<length ms. factor r (k + 2) j) = (\<Prod>j<length ms. factor r k (Suc j))"
    by (simp add: factor_def add.assoc)
  have g: "?mrr = mrr * factor r k 0"
    by (simp add: grow_def factor_def)
  have "(\<Prod>j<Suc (length ms). factor r k j) = factor r k 0 * (\<Prod>j<length ms. factor r k (Suc j))"
    by (rule prod.lessThan_Suc_shift)
  with m sh g k show ?case by simp
qed

text \<open>
  Claim C7, as amended. In month after month the MRR is multiplied by
  \<open>1 + growth\<close>, where \<open>growth = 0.12 + 0.08 * z\<close> and \<open>z\<close> is the Box-Muller variate
  of the next two draws; a trial that is not distressed ends with the base MRR times
  the product of its twelve factors.
\<close>

theorem mrr_grows_arithmetically:
  assumes "draws_ok r"
  shows "grow mrr z = mrr * (1 + (0.12 + 0.08 * z))
     \<and> (month_loop r [0..<months] k initialCash baseMRR = (c, m, False, k') \<longrightarrow>
          m = baseMRR * (\<Prod>j<12. 1 + (0.12 + 0.08 * box_muller (r (k + 2 * j)) (r (k + 2 * j + 1)))))"
proof (intro conjI impI)
  show "grow mrr z = mrr * (1 + (0.12 + 0.08 * z))"
    by (simp add: grow_def growthMean_def growthStd_def)
  assume "month_loop r [0..<months] k initialCash baseMRR = (c, m, False, k')"
  from month_loop_mrr [OF this]
  have "m = baseMRR * (\<Prod>j<12. factor r k j)" by (simp add: months_def)
  then show "m = baseMRR * (\<Prod>j<12. 1 + (0.12 + 0.08 * box_muller (r (k + 2 * j)) (r (k + 2 * j + 1))))"
    by (simp add: factor_def growthMean_def growthStd_def)
qed

theorem mrr_grows_arithmetically_witness:
  "draws_ok calm
   \<and> month_loop calm [0..<months] 0 initialCash baseMRR
       = (115477874556842162368 / 19073486328125, 11146476724282195968 / 19073486328125, False, 24)
   \<and> 11146476724282195968 / 19073486328125
       = baseMRR * (\<Prod>j<12. 1 + (0.12 + 0.08 * box_muller (calm (0 + 2 * j)) (calm (0 + 2 * j + 1))))"
  using mrr_grows_arithmetically [OF draws_ok_calm, of _ _ 0] month_loop_calm draws_ok_calm
  by blast

text \<open>
  Claim C7 as stated fails: at the variate \<open>z = 0\<close> the code multiplies by \<open>1.12\<close>,
  the factor \<open>exp((growth/12 - 0.5*(vol/12)^2) + (vol/sqrt(12))*z)\<close> with the code's
  growth mean and volatility is below \<open>1.0102\<close>.
\<close>

theorem geometric_step_counterexample:
  "grow baseMRR (box_muller (1 / 2) (1 / 4)) = 168000
   \<and> baseMRR * exp ((growthMean / 12 - 0.5 * (growthStd / 12)\<^sup>2)
                     + (growthStd / sqrt 12) * box_muller (1 / 2) (1 / 4)) < 168000"
proof
  show "grow baseMRR (box_muller (1 / 2) (1 / 4)) = 168000"
    by (simp add: box_muller_quarter grow_def mc_consts)
  let ?x = "growthMean / 12 - 0.5 * (growthStd / 12)\<^sup>2"
  have x: "0 \<le> ?x" "?x \<le> 1 / 100"
    by (simp_all add: growthMean_def growthStd_def power2_eq_square)
  then have "exp ?x \<le> 1 + ?x + ?x\<^sup>2"
    by (intro exp_bound) simp_all
  moreover have "?x\<^sup>2 \<le> (1 / 100)\<^sup>2"
    using x by (intro power_mono) simp_all
  ultimately have "exp ?x \<le> 1 + 1 / 100 + (1 / 100)\<^sup>2"
    using x(2) by linarith
  then have "baseMRR * exp ?x \<le> 150000 * (1 + 1 / 100 + (1 / 100)\<^sup>2)"
    by (simp add: baseMRR_def)
  also have "\<dots> < (168000::real)" by (simp add: power2_eq_square)
  finally show "baseMRR * exp (?x + (growthStd / sqrt 12) * box_muller (1 / 2) (1 / 4)) < 168000"
    by (simp add: box_muller_quarter)
qed

section \<open>Runs and the draws they read\<close>

lemma month_loop_cong:
  "\<forall>i. k \<le> i \<and> i < k + 2 * length ms \<longrightarrow> r1 i = r2 i
   \<Longrightarrow> month_loop r1 ms k c m = month_loop r2 ms k c m"
proof (induction ms arbitrary: k c m)
  case Nil
  then show ?case by simp
next
  case (Cons a ms)
  from Cons.prems have e: "r1 k = r2 k" "r1 (k + 1) = r2 (k + 1)" by simp_all
  have "month_loop r1 ms (k + 2) c' m' = month_loop r2 ms (k + 2) c' m'" for c' m'
    by (rule Cons.IH) (use Cons.prems in simp)
  with e show ?case by (simp add: Let_def)
qed

lemma month_loop_pos:
  "k \<le> snd (snd (snd (month_loop r ms k c m)))
   \<and> snd (snd (snd (month_loop r ms k c m))) \<le> k + 2 * length ms"
proof (induction ms arbitrary: k c m)
  case Nil
  then show ?case by simp
next
  case (Cons a ms)
  let ?m = "grow m (box_muller (r k) (r (k + 1)))"
  from Cons.IH [of "k + 2" "c + ?m - burnRate" ?m] show ?case
    by (simp add: Let_def)
qed

lemma trial_cong:
  assumes "\<forall>i. k \<le> i \<and> i < k + 24 \<longrightarrow> r1 i = r2 i"
  shows "trial r1 k = trial r2 k"
proof -
  have "month_loop r1 [0..<months] k initialCash baseMRR
        = month_loop r2 [0..<months] k initialCash baseMRR"
    by (rule month_loop_cong) (use assms in \<open>simp add: months_def\<close>)
  then show ?thesis by (simp add: trial_def)
qed

lemma trial_pos: "k \<le> snd (trial r k) \<and> snd (trial r k) \<le> k + 24"
  using month_loop_pos [of k r "[0..<months]" initialCash baseMRR]
  by (simp add: trial_def months_def split_beta Let_def)

lemma trials_cong:
  "\<forall>i. k \<le> i \<and> i < k + 24 * n \<longrightarrow> r1 i = r2 i \<Longrightarrow> trials r1 n k = trials r2 n k"
proof (induction n arbitrary: k)
  case 0
  then show ?case by simp
next
  case (Suc n)
  have t: "trial r1 k = trial r2 k"
    by (rule trial_cong) (use Suc.prems in simp)
  have "trials r1 n (snd (trial r2 k)) = trials r2 n (snd (trial r2 k))"
  proof (rule Suc.IH, intro allI impI)
    fix i assume "snd (trial r2 k) \<le> i \<and> i < snd (trial r2 k) + 24 * n"
    with trial_pos [of k r2] have "k \<le> i \<and> i < k + 24 * Suc n" by simp
    with Suc.prems show "r1 i = r2 i" by blast
  qed
  with t show ?case by (simp add: split_beta)
qed

lemma holdings_loop_cong:
  "\<forall>i. k \<le> i \<and> i < k + 3 * length hs \<longrightarrow> r1 i = r2 i
   \<Longrightarrow> holdings_loop r1 y hs k a = holdings_loop r2 y hs k a"
proof (induction hs arbitrary: k a)
  case Nil
  then show ?case by simp
next
  case (Cons h hs)
  from Cons.prems have e: "r1 k = r2 k" "r1 (k + 1) = r2 (k + 1)" "r1 (k + 2) = r2 (k + 2)"
    by simp_all
  have "holdings_loop r1 y hs (k + 3) a' = holdings_loop r2 y hs (k + 3) a'" for a'
    by (rule Cons.IH) (use Cons.prems in simp)
  with e show ?case by (simp add: Let_def)
qed

lemma holdings_loop_pos: "snd (holdings_loop r y hs k a) = k + 3 * length hs"
  by (induction hs arbitrary: k a) (simp_all add: Let_def)

lemma years_loop_pos:
  "snd (years_loop r pf yrs k v ys) = k + 3 * length pf * length yrs"
  by (induction yrs arbitrary: k v ys)
     (simp_all add: years_loop_Cons holdings_loop_pos algebra_simps del: years_loop.simps(2))

lemma years_loop_cong:
  "\<forall>i. k \<le> i \<and> i < k + 3 * length pf * length yrs \<longrightarrow> r1 i = r2 i
   \<Longrightarrow> years_loop r1 pf yrs k v ys = years_loop r2 pf yrs k v ys"
proof (induction yrs arbitrary: k v ys)
  case Nil
  then show ?case by simp
next
  case (Cons y yrs)
  have h: "holdings_loop r1 y pf k 0 = holdings_loop r2 y pf k 0"
    by (rule holdings_loop_cong) (use Cons.prems in \<open>simp add: algebra_simps\<close>)
  have "years_loop r1 pf yrs (k + 3 * length pf) v' ys' = years_loop r2 pf yrs (k + 3 * length pf) v' ys'"
    for v' ys'
    by (rule Cons.IH) (use Cons.prems in \<open>simp add: algebra_simps\<close>)
  with h show ?case
    by (simp add: years_loop_Cons holdings_loop_pos del: years_loop.simps(2))
qed

lemma path_pos: "snd (path r pf k) = k + 15 * length pf"
  by (simp add: path_def years_loop_pos)

lemma path_cong:
  "\<forall>i. k \<le> i \<and> i < k + 15 * length pf \<longrightarrow> r1 i = r2 i \<Longrightarrow> path r1 pf k = path r2 pf k"
  unfolding path_def by (rule years_loop_cong) simp

lemma sims_loop_cong:
  "\<forall>i. k \<le> i \<and> i < k + 15 * length pf * n \<longrightarrow> r1 i = r2 i
   \<Longrightarrow> sims_loop r1 pf n k = sims_loop r2 pf n k"
proof (induction n arbitrary: k)
  case 0
  then show ?case by simp
next
  case (Suc n)
  have p: "path r1 pf k = path r2 pf k"
    by (rule path_cong) (use Suc.prems in \<open>simp add: algebra_simps\<close>)
  have "sims_loop r1 pf n (k + 15 * length pf) = sims_loop r2 pf n (k + 15 * length pf)"
    by (rule Suc.IH) (use Suc.prems in \<open>simp add: algebra_simps\<close>)
  with p show ?case by (simp add: split_beta path_pos)
qed

text \<open>
  Claim C3, as amended. The simulations take no seed. The result of a run is determined
  by its arguments and the draws it reads: two runs of \<open>runMonteCarlo\<close> whose first
  \<open>24 * n\<close> draws agree, and two runs of \<open>runPortfolioMC\<close> whose first
  \<open>15 * (number of holdings) * n\<close> draws agree, return the same result.
\<close>

theorem runs_determined_by_draws:
  assumes "draws_ok r1" and "draws_ok r2"
  shows "((\<forall>i<24 * n. r1 i = r2 i) \<longrightarrow> runMonteCarlo r1 n = runMonteCarlo r2 n)
       \<and> ((\<forall>i<15 * length pf * m. r1 i = r2 i) \<longrightarrow> runPortfolioMC r1 pf m = runPortfolioMC r2 pf m)"
proof (intro conjI impI)
  assume "\<forall>i<24 * n. r1 i = r2 i"
  then have "trials r1 n 0 = trials r2 n 0"
    by (intro trials_cong) simp
  then show "runMonteCarlo r1 n = runMonteCarlo r2 n"
    by (simp add: runMonteCarlo_def)
next
  assume "\<forall>i<15 * length pf * m. r1 i = r2 i"
  then have "sims_loop r1 pf m 0 = sims_loop r2 pf m 0"
    by (intro sims_loop_cong) simp
  then show "runPortfolioMC r1 pf m = runPortfolioMC r2 pf m"
    by (simp add: runPortfolioMC_def)
qed

theorem runs_determined_by_draws_witness:
  "draws_ok calm \<and> draws_ok late \<and> calm 24 \<noteq> late 24
   \<and> runMonteCarlo calm 1 = runMonteCarlo late 1
   \<and> runPortfolioMC calm solo 1 = runPortfolioMC late solo 1"
proof -
  have a: "\<forall>i<24 * 1. calm i = late i" by (simp add: calm_def late_def)
  have b: "\<forall>i<15 * length solo * 1. calm i = late i" by (simp add: calm_def late_def solo_def)
  have c: "calm 24 \<noteq> late 24" by (simp add: calm_def late_def)
  from runs_determined_by_draws [OF draws_ok_calm draws_ok_late, of 1 solo 1] a b c
    draws_ok_calm draws_ok_late
  show ?thesis by blast
qed

text \<open>
  Claim C3 as stated fails: with the same arguments and different draws two runs
  return different results, and no argument fixes the draws.
\<close>

theorem runs_differ_counterexample:
  "runPortfolioMC calm solo 1 \<noteq> runPortfolioMC shaken solo 1
   \<and> runMonteCarlo calm 1 \<noteq> runMonteCarlo stormy 1"
proof
  have "map p50 (chartData (runPortfolioMC calm solo 1))
        \<noteq> map p50 (chartData (runPortfolioMC shaken solo 1))"
    unfolding p50_calm p50_shaken by simp
  then show "runPortfolioMC calm solo 1 \<noteq> runPortfolioMC shaken solo 1" by auto
  have "pd (runMonteCarlo calm 1) \<noteq> pd (runMonteCarlo stormy 1)"
    unfolding pd_calm pd_stormy by simp
  then show "runMonteCarlo calm 1 \<noteq> runMonteCarlo stormy 1" by auto
qed

section \<open>Recorded outcomes are never negative\<close>

lemma holdings_loop_sum:
  "fst (holdings_loop r year hs k a)
   = a + (\<Sum>j<length hs.
            if r (k + 3 * j + 2) < pd_h (hs ! j) * (real year / 2)
            then - weight_h (hs ! j) * 0.6
            else weight_h (hs ! j) * (irr_h (hs ! j) + 0.15 * box_muller (r (k + 3 * j)) (r (k + 3 * j + 1))))"
proof -
  define c where "c = (\<lambda>k (hs :: position list) j. if r (k + 3 * j + 2) < pd_h (hs ! j) * (real year / 2)
            then - weight_h (hs ! j) * 0.6
            else weight_h (hs ! j) * (irr_h (hs ! j) + 0.15 * box_muller (r (k + 3 * j)) (r (k + 3 * j + 1))))"
  have "fst (holdings_loop r year hs k a) = a + (\<Sum>j<length hs. c k hs j)"
  proof (induction hs arbitrary: k a)
    case Nil
    then show ?case by simp
  next
    case (Cons h hs)
    have step: "holdings_loop r year (h # hs) k a = holdings_loop r year hs (k + 3) (a + c k (h # hs) 0)"
      by (simp add: Let_def hazard_def c_def)
    have i: "k + 3 + 3 * j = k + 3 * Suc j" for j by simp
    have shift: "c (k + 3) hs j = c k (h # hs) (Suc j)" for j
      unfolding c_def by (simp only: i nth_Cons_Suc)
    have "fst (holdings_loop r year (h # hs) k a) = a + c k (h # hs) 0 + (\<Sum>j<length hs. c (k + 3) hs j)"
      unfolding step by (rule Cons.IH)
    also have "(\<Sum>j<length hs. c (k + 3) hs j) = (\<Sum>j<length hs. c k (h # hs) (Suc j))"
      by (simp only: shift)
    finally have "fst (holdings_loop r year (h # hs) k a)
        = a + (c k (h # hs) 0 + (\<Sum>j<length hs. c k (h # hs) (Suc j)))"
      by (simp only: add.assoc)
    also have "c k (h # hs) 0 + (\<Sum>j<length hs. c k (h # hs) (Suc j)) = (\<Sum>j<Suc (length hs). c k (h # hs) j)"
      by (rule sum.lessThan_Suc_shift [symmetric])
    finally show ?case by simp
  qed
  then show ?thesis unfolding c_def .
qed

lemma holdings_loop_all_distressed:
  assumes "\<forall>j<length hs. r (k + 3 * j + 2) < pd_h (hs ! j) * (real year / 2)"
  shows "fst (holdings_loop r year hs k a) = a - 0.6 * sum_list (map weight_h hs)"
proof -
  have "fst (holdings_loop r year hs k a) = a + (\<Sum>j<length hs. - weight_h (hs ! j) * 0.6)"
    unfolding holdings_loop_sum using assms by (intro arg_cong2 [of _ _ _ _ "(+)"] refl sum.cong) simp_all
  also have "(\<Sum>j<length hs. - weight_h (hs ! j) * 0.6) = - 0.6 * (\<Sum>j<length hs. weight_h (hs ! j))"
    by (simp add: sum_distrib_left mult.commute)
  also have "(\<Sum>j<length hs. weight_h (hs ! j)) = sum_list (map weight_h hs)"
    by (simp add: sum_list_sum_nth atLeast0LessThan)
  finally show ?thesis by simp
qed

lemma years_loop_prefix:
  "i < length ys \<Longrightarrow> fst (years_loop r pf yrs k v ys) ! i = ys ! i"
proof (induction yrs arbitrary: k v ys)
  case Nil
  then show ?case by simp
next
  case (Cons y yrs)
  let ?v = "v * (1 + fst (holdings_loop r y pf k 0))"
  from Cons.prems have "i < length (ys @ [max 0 ?v])" by simp
  then have "fst (years_loop r pf yrs (snd (holdings_loop r y pf k 0)) ?v (ys @ [max 0 ?v])) ! i
             = (ys @ [max 0 ?v]) ! i"
    by (rule Cons.IH)
  with Cons.prems show ?case by (simp only: years_loop_Cons nth_append if_True)
qed

lemma path_year_one: "fst (path r pf k) ! 1 = max 0 (1 + fst (holdings_loop r 1 pf k 0))"
proof -
  have y: "[1..<6] = 1 # [2..<6]" by (simp add: upt_rec)
  let ?v = "1 * (1 + fst (holdings_loop r 1 pf k 0))"
  have "fst (path r pf k) ! 1
        = fst (years_loop r pf [2..<6] (snd (holdings_loop r 1 pf k 0)) ?v ([1] @ [max 0 ?v])) ! 1"
    unfolding path_def y by (simp only: years_loop_Cons)
  also have "\<dots> = ([1] @ [max 0 ?v]) ! 1"
    by (rule years_loop_prefix) simp
  finally show ?thesis by simp
qed

lemma sims_loop_hd: "0 < m \<Longrightarrow> hd (fst (sims_loop r pf m k)) = fst (path r pf k)"
  by (cases m) (simp_all add: sims_loop_Suc del: sims_loop.simps(2))

lemma stormy_small: "exp (- 80000 :: real) < 1 / 20"
proof -
  have "(20::real) < exp 80000"
    using exp_ge_add_one_self [of "80000::real"] by simp
  then have "inverse (exp (80000::real)) < inverse 20"
    by (intro less_imp_inverse_less) simp_all
  then show ?thesis by (simp add: exp_minus inverse_eq_divide)
qed

lemma years_loop_values:
  "fst (years_loop r pf yrs k v ys)
   = ys @ map (\<lambda>n. max 0 (v * (\<Prod>t<Suc n. 1 + fst (holdings_loop r (yrs ! t) pf (k + 3 * length pf * t) 0))))
            [0..<length yrs]"
proof (induction yrs arbitrary: k v ys)
  case Nil
  then show ?case by simp
next
  case (Cons y yrs)
  define g where "g = (\<lambda>t. 1 + fst (holdings_loop r ((y # yrs) ! t) pf (k + 3 * length pf * t) 0))"
  define g' where "g' = (\<lambda>t. 1 + fst (holdings_loop r (yrs ! t) pf (k + 3 * length pf + 3 * length pf * t) 0))"
  have gg: "g' t = g (Suc t)" for t
    by (simp add: g_def g'_def add.assoc)
  have g0: "g 0 = 1 + fst (holdings_loop r y pf k 0)"
    by (simp add: g_def)
  let ?v = "v * (1 + fst (holdings_loop r y pf k 0))"
  have "fst (years_loop r pf (y # yrs) k v ys)
        = fst (years_loop r pf yrs (k + 3 * length pf) ?v (ys @ [max 0 ?v]))"
    by (simp only: years_loop_Cons holdings_loop_pos)
  also have "\<dots> = (ys @ [max 0 ?v]) @ map (\<lambda>n. max 0 (?v * (\<Prod>t<Suc n. g' t))) [0..<length yrs]"
    unfolding g'_def by (rule Cons.IH)
  also have "map (\<lambda>n. max 0 (?v * (\<Prod>t<Suc n. g' t))) [0..<length yrs]
        = map (\<lambda>n. max 0 (v * (\<Prod>t<Suc (Suc n). g t))) [0..<length yrs]"
  proof (rule map_cong [OF refl])
    fix n
    have "(\<Prod>t<Suc (Suc n). g t) = g 0 * (\<Prod>t<Suc n. g (Suc t))"
      by (rule prod.lessThan_Suc_shift)
    then show "max 0 (?v * (\<Prod>t<Suc n. g' t)) = max 0 (v * (\<Prod>t<Suc (Suc n). g t))"
      by (simp only: gg g0 mult.assoc)
  qed
  also have "(ys @ [max 0 ?v]) @ map (\<lambda>n. max 0 (v * (\<Prod>t<Suc (Suc n). g t))) [0..<length yrs]
        = ys @ map (\<lambda>n. max 0 (v * (\<Prod>t<Suc n. g t))) [0..<length (y # yrs)]"
    by (simp add: upt_0_Suc g0 comp_def del: upt_Suc prod.lessThan_Suc)
  finally show ?case unfolding g_def .
qed

lemma path_values:
  assumes "y \<le> 5"
  shows "fst (path r pf k) ! y
         = max 0 (\<Prod>t<y. 1 + fst (holdings_loop r (Suc t) pf (k + 3 * length pf * t) 0))"
proof (cases y)
  case 0
  then show ?thesis by (simp add: path_def years_loop_values)
next
  case (Suc n)
  with assms have n: "n < 5" by simp
  have "fst (path r pf k) ! Suc n
        = max 0 (1 * (\<Prod>t<Suc n. 1 + fst (holdings_loop r ([1..<6] ! t) pf (k + 3 * length pf * t) 0)))"
    using n by (simp add: path_def years_loop_values del: prod.lessThan_Suc upt_Suc)
  also have "(\<Prod>t<Suc n. 1 + fst (holdings_loop r ([1..<6] ! t) pf (k + 3 * length pf * t) 0))
        = (\<Prod>t<Suc n. 1 + fst (holdings_loop r (Suc t) pf (k + 3 * length pf * t) 0))"
    using n by (intro prod.cong refl) simp
  finally show ?thesis using Suc by simp
qed

lemma sims_loop_nth:
  "i < m \<Longrightarrow> fst (sims_loop r pf m k) ! i = fst (path r pf (k + 15 * length pf * i))"
proof (induction m arbitrary: k i)
  case 0
  then show ?case by simp
next
  case (Suc m)
  show ?case
  proof (cases i)
    case 0
    then show ?thesis by (simp add: sims_loop_Suc del: sims_loop.simps(2))
  next
    case (Suc j)
    with Suc.prems have "j < m" by simp
    from Suc.IH [OF this, of "k + 15 * length pf"] Suc show ?thesis
      by (simp add: sims_loop_Suc path_pos add.assoc del: sims_loop.simps(2))
  qed
qed

lemma recorded_values:
  assumes "i < m" and "y \<le> 5"
  shows "fst (sims_loop r pf m 0) ! i ! y
   = max 0 (\<Prod>t<y. 1 + (\<Sum>j<length pf.
        if r (15 * length pf * i + 3 * length pf * t + 3 * j + 2) < pd_h (pf ! j) * (real (Suc t) / 2)
        then - weight_h (pf ! j) * 0.6
        else weight_h (pf ! j)
             * (irr_h (pf ! j)
                + 0.15 * box_muller (r (15 * length pf * i + 3 * length pf * t + 3 * j))
                                    (r (15 * length pf * i + 3 * length pf * t + 3 * j + 1)))))"
  using assms by (simp only: sims_loop_nth path_values holdings_loop_sum add_0)

text \<open>
  Claim C2, as amended. In every trial of \<open>runMonteCarlo\<close> the recorded payout
  multiple is at least 0, and it is exactly 0 when the trial is distressed. In every
  path of \<open>runPortfolioMC\<close> every recorded yearly value is at least 0. There distress
  is drawn for each holding in each year, a distressed holding contributes \<open>-0.6\<close>
  times its weight to the year's return, and the path goes on: the value recorded
  after year \<open>y\<close> is \<open>max 0\<close> of the product of \<open>1 + return\<close> over the years up to
  \<open>y\<close>. After year 1 that is \<open>max 0 (1 - 0.6 * sum of the weights)\<close> when every holding
  is distressed, and not 0 in general.
\<close>

theorem roi_never_negative:
  assumes "draws_ok r"
  shows "(\<forall>res\<in>set (fst (trials r n 0)).
            0 \<le> multiple res \<and> (distressed res \<longrightarrow> multiple res = 0))
         \<and> (\<forall>p\<in>set (fst (sims_loop r pf m 0)). \<forall>v\<in>set p. 0 \<le> v)
         \<and> (\<forall>i<m. \<forall>y\<le>5.
              fst (sims_loop r pf m 0) ! i ! y
              = max 0 (\<Prod>t<y. 1 + (\<Sum>j<length pf.
                  if r (15 * length pf * i + 3 * length pf * t + 3 * j + 2)
                       < pd_h (pf ! j) * (real (Suc t) / 2)
                  then - weight_h (pf ! j) * 0.6
                  else weight_h (pf ! j)
                       * (irr_h (pf ! j)
                          + 0.15 * box_muller (r (15 * length pf * i + 3 * length pf * t + 3 * j))
                                              (r (15 * length pf * i + 3 * length pf * t + 3 * j + 1))))))
         \<and> (0 < m \<and> (\<forall>j<length pf. r (3 * j + 2) < pd_h (pf ! j) * (real 1 / 2)) \<longrightarrow>
              hd (fst (sims_loop r pf m 0)) ! 1 = max 0 (1 - 0.6 * sum_list (map weight_h pf)))"
proof (intro conjI impI allI)
  show "\<forall>res\<in>set (fst (trials r n 0)).
          0 \<le> multiple res \<and> (distressed res \<longrightarrow> multiple res = 0)"
    by (rule trials_all) (rule trial_multiple)
  show "\<forall>p\<in>set (fst (sims_loop r pf m 0)). \<forall>v\<in>set p. 0 \<le> v"
    by (rule sims_loop_all) (rule path_nonneg)
next
  fix i y :: nat
  assume "i < m" and "y \<le> 5"
  then show "fst (sims_loop r pf m 0) ! i ! y
              = max 0 (\<Prod>t<y. 1 + (\<Sum>j<length pf.
                  if r (15 * length pf * i + 3 * length pf * t + 3 * j + 2)
                       < pd_h (pf ! j) * (real (Suc t) / 2)
                  then - weight_h (pf ! j) * 0.6
                  else weight_h (pf ! j)
                       * (irr_h (pf ! j)
                          + 0.15 * box_muller (r (15 * length pf * i + 3 * length pf * t + 3 * j))
                                              (r (15 * length pf * i + 3 * length pf * t + 3 * j + 1)))))"
    by (rule recorded_values)
next
  assume a: "0 < m \<and> (\<forall>j<length pf. r (3 * j + 2) < pd_h (pf ! j) * (real 1 / 2))"
  then have "hd (fst (sims_loop r pf m 0)) ! 1 = max 0 (1 + fst (holdings_loop r 1 pf 0 0))"
    by (simp only: sims_loop_hd path_year_one)
  moreover have "fst (holdings_loop r 1 pf 0 0) = 0 - 0.6 * sum_list (map weight_h pf)"
    by (rule holdings_loop_all_distressed) (use a in simp)
  ultimately show "hd (fst (sims_loop r pf m 0)) ! 1 = max 0 (1 - 0.6 * sum_list (map weight_h pf))"
    by simp
qed

theorem roi_never_negative_witness:
  "draws_ok stormy
   \<and> distressed (hd (fst (trials stormy 2 0)))
   \<and> 0 \<le> multiple (hd (fst (trials stormy 2 0)))
   \<and> multiple (hd (fst (trials stormy 2 0))) = 0
   \<and> 0 \<le> last (hd (fst (sims_loop stormy solo 2 0)))
   \<and> (0::nat) < 2
   \<and> stormy (3 * 0 + 2) < pd_h (solo ! 0) * (real 1 / 2)
   \<and> hd (fst (sims_loop stormy solo 2 0)) ! 1 = 0.4"
proof -
  have t: "fst (trials stormy 2 0) = replicate 2 \<lparr>irr = - 1, distressed = True, multiple = 0\<rparr>"
    by (rule trials_stormy) simp
  then have h: "hd (fst (trials stormy 2 0)) \<in> set (fst (trials stormy 2 0))"
    and d: "distressed (hd (fst (trials stormy 2 0)))"
    by (simp_all add: numeral_2_eq_2)
  have "length (fst (sims_loop stormy solo 2 0)) = 2"
    by (rule sims_loop_length)
  then have p: "hd (fst (sims_loop stormy solo 2 0)) \<in> set (fst (sims_loop stormy solo 2 0))"
    by (cases "fst (sims_loop stormy solo 2 0)") simp_all
  have "length (hd (fst (sims_loop stormy solo 2 0))) = 6"
    by (simp add: numeral_2_eq_2 sims_loop_Suc path_length del: sims_loop.simps(2))
  then have l: "last (hd (fst (sims_loop stormy solo 2 0))) \<in> set (hd (fst (sims_loop stormy solo 2 0)))"
    by (intro last_in_set) auto
  have s: "stormy (3 * 0 + 2) < pd_h (solo ! 0) * (real 1 / 2)"
    using stormy_small by (simp add: stormy_def solo_def)
  then have a: "\<forall>j<length solo. stormy (3 * j + 2) < pd_h (solo ! j) * (real 1 / 2)"
    by (simp add: solo_def)
  have w: "max 0 (1 - 0.6 * sum_list (map weight_h solo)) = (0.4::real)"
    by (simp add: solo_def)
  have z: "(0::nat) < 2" by simp
  note T = roi_never_negative [OF draws_ok_stormy, of 2 solo 2]
  from T [THEN conjunct1] h d have m: "0 \<le> multiple (hd (fst (trials stormy 2 0)))"
    "multiple (hd (fst (trials stormy 2 0))) = 0"
    by blast+
  from T [THEN conjunct2, THEN conjunct1] p l
  have n: "0 \<le> last (hd (fst (sims_loop stormy solo 2 0)))"
    by blast
  from T [THEN conjunct2, THEN conjunct2, THEN conjunct2] z a
  have "hd (fst (sims_loop stormy solo 2 0)) ! 1
      = max 0 (1 - 0.6 * sum_list (map weight_h solo))"
    by blast
  then have v: "hd (fst (sims_loop stormy solo 2 0)) ! 1 = 0.4"
    unfolding w .
  from draws_ok_stormy d m n z s v show ?thesis
    by (intro conjI)
qed

text \<open>
  Claim C2 as stated fails in \<open>runPortfolioMC\<close>: the only holding of the portfolio is
  distressed in year 1, and the path records 0.4 after that year, not 0.
\<close>

theorem distressed_path_not_zero_counterexample:
  "shaken 2 < pd_h (hd solo) * (real 1 / 2)
   \<and> fst (holdings_loop shaken 1 solo 0 0) = - 0.6
   \<and> fst (sims_loop shaken solo 1 0) = [[1, 0.4, 0.48, 0.576, 0.6912, 0.82944]]
   \<and> hd (fst (sims_loop shaken solo 1 0)) ! 1 \<noteq> 0"
proof -
  have "shaken 2 < pd_h (hd solo) * (real 1 / 2)"
    by (simp add: shaken_def solo_def)
  moreover have "fst (holdings_loop shaken 1 solo 0 0) = - 0.6"
    by (simp add: shaken_def solo_def box_muller_quarter hazard_def Let_def)
  moreover have "hd (fst (sims_loop shaken solo 1 0)) ! 1 \<noteq> 0"
    unfolding paths_shaken by simp
  ultimately show ?thesis using paths_shaken by simp
qed

section \<open>Percentiles\<close>

lemma floor_index:
  assumes "0 < n" "0 \<le> p" "p < 1"
  shows "0 \<le> \<lfloor>real n * p\<rfloor> \<and> nat \<lfloor>real n * p\<rfloor> < n"
proof -
  have "0 \<le> real n * p" using assms by simp
  then have z: "0 \<le> \<lfloor>real n * p\<rfloor>" by simp
  have "real n * p < real n" using assms by simp
  then have "\<lfloor>real n * p\<rfloor> < int n" by (simp add: floor_less_iff)
  with z show ?thesis by (simp add: nat_less_iff)
qed

lemma getPercentile_order_statistic:
  assumes "arr \<noteq> []" "0 \<le> p" "p < 1"
  shows "getPercentile arr p = Some (sort arr ! nat \<lfloor>real (length arr) * p\<rfloor>)"
  using floor_index [of "length arr" p] assms by (simp add: getPercentile_def Let_def)

lemma getPercentile_mono:
  assumes "arr \<noteq> []" "0 \<le> p" "p \<le> q" "q < 1"
  shows "\<exists>a b. getPercentile arr p = Some a \<and> getPercentile arr q = Some b \<and> a \<le> b"
proof -
  let ?n = "length arr"
  have n: "0 < ?n" using assms(1) by simp
  have "real ?n * p \<le> real ?n * q" using assms(3) by (simp add: mult_left_mono)
  then have "\<lfloor>real ?n * p\<rfloor> \<le> \<lfloor>real ?n * q\<rfloor>" by (rule floor_mono)
  then have i: "nat \<lfloor>real ?n * p\<rfloor> \<le> nat \<lfloor>real ?n * q\<rfloor>" by simp
  have j: "nat \<lfloor>real ?n * q\<rfloor> < length (sort arr)"
    using floor_index [OF n, of q] assms by simp
  have "sort arr ! nat \<lfloor>real ?n * p\<rfloor> \<le> sort arr ! nat \<lfloor>real ?n * q\<rfloor>"
    by (rule sorted_nth_mono [OF _ i j]) simp
  moreover have "getPercentile arr p = Some (sort arr ! nat \<lfloor>real ?n * p\<rfloor>)"
    by (rule getPercentile_order_statistic) (use assms in simp_all)
  moreover have "getPercentile arr q = Some (sort arr ! nat \<lfloor>real ?n * q\<rfloor>)"
    by (rule getPercentile_order_statistic) (use assms in simp_all)
  ultimately show ?thesis by simp
qed

lemma toFixed1_mono: "x \<le> y \<Longrightarrow> toFixed1 x \<le> toFixed1 y"
proof -
  assume xy: "x \<le> y"
  have nonneg: "0 \<le> real_of_int \<lfloor>z * 10 + 1 / 2\<rfloor> / 10" if "0 \<le> z" for z :: real
    using that by simp
  show ?thesis
  proof (cases "x < 0")
    case True
    show ?thesis
    proof (cases "y < 0")
      case T: True
      from xy have "\<lfloor>- y * 10 + 1 / 2\<rfloor> \<le> \<lfloor>- x * 10 + 1 / 2\<rfloor>"
        by (intro floor_mono) simp
      with True T show ?thesis by (simp add: toFixed1_def divide_right_mono)
    next
      case False
      from True have a: "0 \<le> real_of_int \<lfloor>- x * 10 + 1 / 2\<rfloor> / 10"
        using nonneg [of "- x"] by simp
      from False have b: "0 \<le> real_of_int \<lfloor>y * 10 + 1 / 2\<rfloor> / 10"
        using nonneg [of y] by simp
      have "toFixed1 x = - (real_of_int \<lfloor>- x * 10 + 1 / 2\<rfloor> / 10)"
        unfolding toFixed1_def using True by (rule if_P)
      moreover have "toFixed1 y = real_of_int \<lfloor>y * 10 + 1 / 2\<rfloor> / 10"
        unfolding toFixed1_def using False by (rule if_not_P)
      ultimately show ?thesis using a b by linarith
    qed
  next
    case False
    with xy have y: "\<not> y < 0" by simp
    from xy have "\<lfloor>x * 10 + 1 / 2\<rfloor> \<le> \<lfloor>y * 10 + 1 / 2\<rfloor>"
      by (intro floor_mono) simp
    with False y show ?thesis by (simp add: toFixed1_def divide_right_mono)
  qed
qed

lemma cents_mono:
  assumes "vals \<noteq> []" "0 \<le> p" "p \<le> q" "q < 1"
  shows "\<exists>a b. cents vals p = Some a \<and> cents vals q = Some b \<and> a \<le> b"
proof -
  from getPercentile_mono [OF assms] obtain a b where
    ab: "getPercentile vals p = Some a" "getPercentile vals q = Some b" "a \<le> b" by blast
  then have "toFixed1 (a * 100) \<le> toFixed1 (b * 100)"
    by (intro toFixed1_mono) simp
  with ab show ?thesis by (simp add: cents_def)
qed

lemma chart_row_ordered:
  assumes "paths \<noteq> []"
  shows "\<exists>a b c d e. p10 (chart_row_of paths year) = Some a \<and> p25 (chart_row_of paths year) = Some b
     \<and> p50 (chart_row_of paths year) = Some c \<and> p75 (chart_row_of paths year) = Some d
     \<and> p90 (chart_row_of paths year) = Some e \<and> a \<le> b \<and> b \<le> c \<and> c \<le> d \<and> d \<le> e"
proof -
  let ?v = "map (\<lambda>p. p ! year) paths"
  have ne: "?v \<noteq> []" using assms by simp
  from cents_mono [OF ne, of "0.10" "0.25"] obtain a b where
    1: "cents ?v 0.10 = Some a" "cents ?v 0.25 = Some b" "a \<le> b" by auto
  from cents_mono [OF ne, of "0.25" "0.50"] 1 obtain c where
    2: "cents ?v 0.50 = Some c" "b \<le> c" by auto
  from cents_mono [OF ne, of "0.50" "0.75"] 2 obtain d where
    3: "cents ?v 0.75 = Some d" "c \<le> d" by auto
  from cents_mono [OF ne, of "0.75" "0.90"] 3 obtain e where
    4: "cents ?v 0.90 = Some e" "d \<le> e" by auto
  from 1 2 3 4 show ?thesis by (simp add: chart_row_of_def Let_def)
qed

lemma cents_order_statistic:
  assumes "vals \<noteq> []" "0 \<le> p" "p < 1"
  shows "cents vals p = Some (toFixed1 (sort vals ! nat \<lfloor>real (length vals) * p\<rfloor> * 100))"
  by (simp add: cents_def getPercentile_order_statistic [OF assms])

lemma chartData_nth:
  "year < 6 \<Longrightarrow> chartData (runPortfolioMC r pf n) ! year = chart_row_of (fst (sims_loop r pf n 0)) year"
  by (simp add: runPortfolioMC_def Let_def)

lemma chart_row_fields:
  assumes "paths \<noteq> []"
  shows "p10 (chart_row_of paths year)
           = Some (toFixed1 (sort (map (\<lambda>p. p ! year) paths) ! nat \<lfloor>real (length paths) * 0.10\<rfloor> * 100))"
    and "p25 (chart_row_of paths year)
           = Some (toFixed1 (sort (map (\<lambda>p. p ! year) paths) ! nat \<lfloor>real (length paths) * 0.25\<rfloor> * 100))"
    and "p50 (chart_row_of paths year)
           = Some (toFixed1 (sort (map (\<lambda>p. p ! year) paths) ! nat \<lfloor>real (length paths) * 0.50\<rfloor> * 100))"
    and "p75 (chart_row_of paths year)
           = Some (toFixed1 (sort (map (\<lambda>p. p ! year) paths) ! nat \<lfloor>real (length paths) * 0.75\<rfloor> * 100))"
    and "p90 (chart_row_of paths year)
           = Some (toFixed1 (sort (map (\<lambda>p. p ! year) paths) ! nat \<lfloor>real (length paths) * 0.90\<rfloor> * 100))"
proof -
  have ne: "map (\<lambda>p. p ! year) paths \<noteq> []" using assms by simp
  have c: "cents (map (\<lambda>p. p ! year) paths) q
      = Some (toFixed1 (sort (map (\<lambda>p. p ! year) paths) ! nat \<lfloor>real (length paths) * q\<rfloor> * 100))"
    if "0 \<le> q" "q < 1" for q
    using cents_order_statistic [OF ne that] by simp
  show "p10 (chart_row_of paths year)
           = Some (toFixed1 (sort (map (\<lambda>p. p ! year) paths) ! nat \<lfloor>real (length paths) * 0.10\<rfloor> * 100))"
    unfolding chart_row_of_def Let_def by (simp only: chart_row.simps, rule c) simp_all
  show "p25 (chart_row_of paths year)
           = Some (toFixed1 (sort (map (\<lambda>p. p ! year) paths) ! nat \<lfloor>real (length paths) * 0.25\<rfloor> * 100))"
    unfolding chart_row_of_def Let_def by (simp only: chart_row.simps, rule c) simp_all
  show "p50 (chart_row_of paths year)
           = Some (toFixed1 (sort (map (\<lambda>p. p ! year) paths) ! nat \<lfloor>real (length paths) * 0.50\<rfloor> * 100))"
    unfolding chart_row_of_def Let_def by (simp only: chart_row.simps, rule c) simp_all
  show "p75 (chart_row_of paths year)
           = Some (toFixed1 (sort (map (\<lambda>p. p ! year) paths) ! nat \<lfloor>real (length paths) * 0.75\<rfloor> * 100))"
    unfolding chart_row_of_def Let_def by (simp only: chart_row.simps, rule c) simp_all
  show "p90 (chart_row_of paths year)
           = Some (toFixed1 (sort (map (\<lambda>p. p ! year) paths) ! nat \<lfloor>real (length paths) * 0.90\<rfloor> * 100))"
    unfolding chart_row_of_def Let_def by (simp only: chart_row.simps, rule c) simp_all
qed

lemma draws_ok_staggered: "draws_ok staggered"
  by (simp add: draws_ok_def staggered_def)

lemma years: "[1..<6] = [1, 2, 3, 4, 5 :: nat]"
  by (simp add: upt_rec)

lemma path_staggered_0:
  "path staggered solo 0 = ([1, 1.2, 1.44, 1.728, 2.0736, 2.48832], 15)"
  unfolding path_def years
  by (simp add: years_loop_Cons solo_def staggered_def box_muller_quarter hazard_def Let_def
      del: years_loop.simps(2))

lemma path_staggered_1:
  "path staggered solo 15 = ([1, 0.4, 0.48, 0.576, 0.6912, 0.82944], 30)"
  unfolding path_def years
  by (simp add: years_loop_Cons solo_def staggered_def box_muller_quarter hazard_def Let_def
      del: years_loop.simps(2))

lemma path_staggered_2:
  "path staggered solo 30 = ([1, 0.4, 0.16, 0.192, 0.2304, 0.27648], 45)"
  unfolding path_def years
  by (simp add: years_loop_Cons solo_def staggered_def box_muller_quarter hazard_def Let_def
      del: years_loop.simps(2))

lemma path_staggered_3:
  "path staggered solo 45 = ([1, 0.4, 0.16, 0.064, 0.0768, 0.09216], 60)"
  unfolding path_def years
  by (simp add: years_loop_Cons solo_def staggered_def box_muller_quarter hazard_def Let_def
      del: years_loop.simps(2))

lemma paths_staggered:
  "fst (sims_loop staggered solo 4 0)
   = [[1, 1.2, 1.44, 1.728, 2.0736, 2.48832], [1, 0.4, 0.48, 0.576, 0.6912, 0.82944],
      [1, 0.4, 0.16, 0.192, 0.2304, 0.27648], [1, 0.4, 0.16, 0.064, 0.0768, 0.09216]]"
proof -
  have "(4::nat) = Suc (Suc (Suc (Suc 0)))" by simp
  then show ?thesis
    by (simp only: sims_loop_Suc sims_loop.simps(1) path_staggered_0 path_staggered_1
        path_staggered_2 path_staggered_3 fst_conv snd_conv)
qed

lemma row5_staggered:
  "chartData (runPortfolioMC staggered solo 4) ! 5
   = \<lparr>year_label = ''Y5'', p10 = Some 9.2, p25 = Some 27.6, p50 = Some 82.9,
       p75 = Some 248.8, p90 = Some 248.8\<rparr>"
  unfolding runPortfolioMC_def paths_staggered
  by (simp add: chart_row_of_def cents_def getPercentile_def toFixed1_def label_of_def upt_rec Let_def)

text \<open>
  Claim C9. A percentile of a non-empty sample is the element at index
  \<open>floor(n * p)\<close> of the ascending sort. For a run with \<open>n \<ge> 1\<close> simulations the
  chart has six rows, and in the row of each year \<open>p10\<close>, \<open>p25\<close>, \<open>p50\<close>, \<open>p75\<close> and
  \<open>p90\<close> are the elements at the indices \<open>floor(n * 0.10)\<close>, ..., \<open>floor(n * 0.90)\<close>
  of the sorted values of that year, times 100 and rounded to one decimal; so
  \<open>p10 \<le> p25 \<le> p50 \<le> p75 \<le> p90\<close>.
\<close>

theorem percentiles_ordered:
  assumes "draws_ok r" and "0 < n"
  shows "(\<forall>year<6.
            p10 (chartData (runPortfolioMC r pf n) ! year)
              = Some (toFixed1 (sort (map (\<lambda>p. p ! year) (fst (sims_loop r pf n 0))) ! nat \<lfloor>real n * 0.10\<rfloor> * 100))
          \<and> p25 (chartData (runPortfolioMC r pf n) ! year)
              = Some (toFixed1 (sort (map (\<lambda>p. p ! year) (fst (sims_loop r pf n 0))) ! nat \<lfloor>real n * 0.25\<rfloor> * 100))
          \<and> p50 (chartData (runPortfolioMC r pf n) ! year)
              = Some (toFixed1 (sort (map (\<lambda>p. p ! year) (fst (sims_loop r pf n 0))) ! nat \<lfloor>real n * 0.50\<rfloor> * 100))
          \<and> p75 (chartData (runPortfolioMC r pf n) ! year)
              = Some (toFixed1 (sort (map (\<lambda>p. p ! year) (fst (sims_loop r pf n 0))) ! nat \<lfloor>real n * 0.75\<rfloor> * 100))
          \<and> p90 (chartData (runPortfolioMC r pf n) ! year)
              = Some (toFixed1 (sort (map (\<lambda>p. p ! year) (fst (sims_loop r pf n 0))) ! nat \<lfloor>real n * 0.90\<rfloor> * 100)))
         \<and> length (chartData (runPortfolioMC r pf n)) = 6
         \<and> (\<forall>row\<in>set (chartData (runPortfolioMC r pf n)).
           \<exists>a b c d e. p10 row = Some a \<and> p25 row = Some b \<and> p50 row = Some c
             \<and> p75 row = Some d \<and> p90 row = Some e \<and> a \<le> b \<and> b \<le> c \<and> c \<le> d \<and> d \<le> e)
         \<and> (\<forall>arr p. arr \<noteq> [] \<and> 0 \<le> p \<and> p < 1 \<longrightarrow>
              getPercentile arr p = Some (sort arr ! nat \<lfloor>real (length arr) * p\<rfloor>))"
proof (intro conjI)
  have len: "length (fst (sims_loop r pf n 0)) = n" by (rule sims_loop_length)
  with assms(2) have ne: "fst (sims_loop r pf n 0) \<noteq> []" by auto
  show "\<forall>year<6.
            p10 (chartData (runPortfolioMC r pf n) ! year)
              = Some (toFixed1 (sort (map (\<lambda>p. p ! year) (fst (sims_loop r pf n 0))) ! nat \<lfloor>real n * 0.10\<rfloor> * 100))
          \<and> p25 (chartData (runPortfolioMC r pf n) ! year)
              = Some (toFixed1 (sort (map (\<lambda>p. p ! year) (fst (sims_loop r pf n 0))) ! nat \<lfloor>real n * 0.25\<rfloor> * 100))
          \<and> p50 (chartData (runPortfolioMC r pf n) ! year)
              = Some (toFixed1 (sort (map (\<lambda>p. p ! year) (fst (sims_loop r pf n 0))) ! nat \<lfloor>real n * 0.50\<rfloor> * 100))
          \<and> p75 (chartData (runPortfolioMC r pf n) ! year)
              = Some (toFixed1 (sort (map (\<lambda>p. p ! year) (fst (sims_loop r pf n 0))) ! nat \<lfloor>real n * 0.75\<rfloor> * 100))
          \<and> p90 (chartData (runPortfolioMC r pf n) ! year)
              = Some (toFixed1 (sort (map (\<lambda>p. p ! year) (fst (sims_loop r pf n 0))) ! nat \<lfloor>real n * 0.90\<rfloor> * 100))"
  proof (intro allI impI)
    fix year :: nat
    assume "year < 6"
    then have row: "chartData (runPortfolioMC r pf n) ! year = chart_row_of (fst (sims_loop r pf n 0)) year"
      by (rule chartData_nth)
    from chart_row_fields [OF ne, of year]
    show "p10 (chartData (runPortfolioMC r pf n) ! year)
              = Some (toFixed1 (sort (map (\<lambda>p. p ! year) (fst (sims_loop r pf n 0))) ! nat \<lfloor>real n * 0.10\<rfloor> * 100))
          \<and> p25 (chartData (runPortfolioMC r pf n) ! year)
              = Some (toFixed1 (sort (map (\<lambda>p. p ! year) (fst (sims_loop r pf n 0))) ! nat \<lfloor>real n * 0.25\<rfloor> * 100))
          \<and> p50 (chartData (runPortfolioMC r pf n) ! year)
              = Some (toFixed1 (sort (map (\<lambda>p. p ! year) (fst (sims_loop r pf n 0))) ! nat \<lfloor>real n * 0.50\<rfloor> * 100))
          \<and> p75 (chartData (runPortfolioMC r pf n) ! year)
              = Some (toFixed1 (sort (map (\<lambda>p. p ! year) (fst (sims_loop r pf n 0))) ! nat \<lfloor>real n * 0.75\<rfloor> * 100))
          \<and> p90 (chartData (runPortfolioMC r pf n) ! year)
              = Some (toFixed1 (sort (map (\<lambda>p. p ! year) (fst (sims_loop r pf n 0))) ! nat \<lfloor>real n * 0.90\<rfloor> * 100))"
      unfolding row len by (intro conjI)
  qed
  show "length (chartData (runPortfolioMC r pf n)) = 6"
    by (simp add: runPortfolioMC_def Let_def)
  show "\<forall>row\<in>set (chartData (runPortfolioMC r pf n)).
           \<exists>a b c d e. p10 row = Some a \<and> p25 row = Some b \<and> p50 row = Some c
             \<and> p75 row = Some d \<and> p90 row = Some e \<and> a \<le> b \<and> b \<le> c \<and> c \<le> d \<and> d \<le> e"
    using chart_row_ordered [OF ne] by (auto simp: runPortfolioMC_def Let_def)
  show "\<forall>arr p. arr \<noteq> [] \<and> 0 \<le> p \<and> p < 1 \<longrightarrow>
              getPercentile arr p = Some (sort arr ! nat \<lfloor>real (length arr) * p\<rfloor>)"
    by (simp add: getPercentile_order_statistic)
qed

theorem percentiles_ordered_witness:
  "draws_ok staggered \<and> (0::nat) < 4
   \<and> chartData (runPortfolioMC staggered solo 4) ! 5
       = \<lparr>year_label = ''Y5'', p10 = Some 9.2, p25 = Some 27.6, p50 = Some 82.9,
           p75 = Some 248.8, p90 = Some 248.8\<rparr>
   \<and> sort (map (\<lambda>p. p ! 5) (fst (sims_loop staggered solo 4 0)))
       = [0.09216, 0.27648, 0.82944, 2.48832]
   \<and> p10 (chartData (runPortfolioMC staggered solo 4) ! 5)
       = Some (toFixed1 (sort (map (\<lambda>p. p ! 5) (fst (sims_loop staggered solo 4 0))) ! nat \<lfloor>real 4 * 0.10\<rfloor> * 100))
   \<and> p50 (chartData (runPortfolioMC staggered solo 4) ! 5)
       = Some (toFixed1 (sort (map (\<lambda>p. p ! 5) (fst (sims_loop staggered solo 4 0))) ! nat \<lfloor>real 4 * 0.50\<rfloor> * 100))
   \<and> getPercentile [3, 1, 2] (1 / 2) = Some 2"
proof -
  have g: "getPercentile [3, 1, 2] (1 / 2) = Some 2"
    by (simp add: getPercentile_def Let_def)
  have s: "sort (map (\<lambda>p. p ! 5) (fst (sims_loop staggered solo 4 0)))
       = [0.09216, 0.27648, 0.82944, 2.48832]"
    unfolding paths_staggered by simp
  from percentiles_ordered [OF draws_ok_staggered, of 4 solo] draws_ok_staggered row5_staggered g s
  show ?thesis by (simp add: toFixed1_def)
qed

section \<open>The threshold of the distress draw\<close>

text \<open>
  Claim C6, as amended. The threshold of the distress draw of a holding is
  \<open>pd12m * (year / 2)\<close>, not clamped: the year's return is the sum over the holdings
  of \<open>-0.6 * weight\<close> where the draw is below that threshold and of
  \<open>weight * annualIRR\<close> elsewhere. For the years 1 to 5 the threshold lies in
  \<open>[0, 1]\<close> when \<open>0 \<le> pd12m \<le> 0.4\<close> and in \<open>[0, 2.5]\<close> when \<open>0 \<le> pd12m \<le> 1\<close>. For
  draws strictly between 0 and 1 the loop returns what it would return with every
  threshold clamped to \<open>[0, 1]\<close>, and holdings whose threshold is at least 1 are
  distressed with certainty.
\<close>

theorem hazard_range:
  "(0 \<le> pd_h h \<and> pd_h h \<le> 2 / 5 \<and> 1 \<le> year \<and> year \<le> 5 \<longrightarrow>
      0 \<le> hazard h year \<and> hazard h year \<le> 1)
   \<and> (0 \<le> pd_h h \<and> pd_h h \<le> 1 \<and> 1 \<le> year \<and> year \<le> 5 \<longrightarrow>
      0 \<le> hazard h year \<and> hazard h year \<le> 5 / 2)
   \<and> (0 \<le> u \<and> u < 1 \<longrightarrow> (u < hazard h year) = (u < min 1 (max 0 (hazard h year))))
   \<and> hazard h year = pd_h h * (real year / 2)
   \<and> fst (holdings_loop r year hs k a)
       = a + (\<Sum>j<length hs.
                if r (k + 3 * j + 2) < pd_h (hs ! j) * (real year / 2)
                then - weight_h (hs ! j) * 0.6
                else weight_h (hs ! j) * (irr_h (hs ! j) + 0.15 * box_muller (r (k + 3 * j)) (r (k + 3 * j + 1))))
   \<and> (draws_ok r \<longrightarrow>
        fst (holdings_loop r year hs k a)
        = a + (\<Sum>j<length hs.
                if r (k + 3 * j + 2) < min 1 (max 0 (pd_h (hs ! j) * (real year / 2)))
                then - weight_h (hs ! j) * 0.6
                else weight_h (hs ! j) * (irr_h (hs ! j) + 0.15 * box_muller (r (k + 3 * j)) (r (k + 3 * j + 1)))))
   \<and> (draws_ok r \<and> (\<forall>x\<in>set hs. 1 \<le> pd_h x * (real year / 2)) \<longrightarrow>
        fst (holdings_loop r year hs k a) = a - 0.6 * sum_list (map weight_h hs))"
proof (intro conjI impI)
  assume a: "0 \<le> pd_h h \<and> pd_h h \<le> 2 / 5 \<and> 1 \<le> year \<and> year \<le> 5"
  then have y: "0 \<le> real year / 2" "real year / 2 \<le> 5 / 2" by simp_all
  from a y show "0 \<le> hazard h year" by (simp add: hazard_def)
  from a y have "pd_h h * (real year / 2) \<le> (2 / 5) * (5 / 2)"
    by (intro mult_mono) simp_all
  then show "hazard h year \<le> 1" by (simp add: hazard_def)
next
  assume a: "0 \<le> pd_h h \<and> pd_h h \<le> 1 \<and> 1 \<le> year \<and> year \<le> 5"
  then have y: "0 \<le> real year / 2" "real year / 2 \<le> 5 / 2" by simp_all
  from a y show "0 \<le> hazard h year" by (simp add: hazard_def)
  from a y have "pd_h h * (real year / 2) \<le> 1 * (5 / 2)"
    by (intro mult_mono) simp_all
  then show "hazard h year \<le> 5 / 2" by (simp add: hazard_def)
next
  assume "0 \<le> u \<and> u < 1"
  then show "(u < hazard h year) = (u < min 1 (max 0 (hazard h year)))"
    by (auto simp: min_def max_def)
next
  show "hazard h year = pd_h h * (real year / 2)" by (simp add: hazard_def)
  show "fst (holdings_loop r year hs k a)
       = a + (\<Sum>j<length hs.
                if r (k + 3 * j + 2) < pd_h (hs ! j) * (real year / 2)
                then - weight_h (hs ! j) * 0.6
                else weight_h (hs ! j) * (irr_h (hs ! j) + 0.15 * box_muller (r (k + 3 * j)) (r (k + 3 * j + 1))))"
    by (rule holdings_loop_sum)
next
  assume d: "draws_ok r"
  have c: "(r i < min 1 (max 0 t)) = (r i < t)" for i t
  proof -
    from d have "0 < r i" "r i < 1" by (simp_all add: draws_ok_def)
    then show ?thesis by (auto simp: min_def max_def)
  qed
  show "fst (holdings_loop r year hs k a)
        = a + (\<Sum>j<length hs.
                if r (k + 3 * j + 2) < min 1 (max 0 (pd_h (hs ! j) * (real year / 2)))
                then - weight_h (hs ! j) * 0.6
                else weight_h (hs ! j) * (irr_h (hs ! j) + 0.15 * box_muller (r (k + 3 * j)) (r (k + 3 * j + 1))))"
    unfolding c by (rule holdings_loop_sum)
next
  assume a: "draws_ok r \<and> (\<forall>x\<in>set hs. 1 \<le> pd_h x * (real year / 2))"
  have "\<forall>j<length hs. r (k + 3 * j + 2) < pd_h (hs ! j) * (real year / 2)"
  proof (intro allI impI)
    fix j assume "j < length hs"
    then have "1 \<le> pd_h (hs ! j) * (real year / 2)" using a by simp
    moreover have "r (k + 3 * j + 2) < 1" using a by (simp add: draws_ok_def)
    ultimately show "r (k + 3 * j + 2) < pd_h (hs ! j) * (real year / 2)" by simp
  qed
  then show "fst (holdings_loop r year hs k a) = a - 0.6 * sum_list (map weight_h hs)"
    by (rule holdings_loop_all_distressed)
qed

theorem hazard_range_witness:
  "0 \<le> pd_h (hd solo) \<and> pd_h (hd solo) \<le> 2 / 5 \<and> (1::nat) \<le> 5 \<and> (5::nat) \<le> 5
   \<and> (0::real) \<le> 1 / 4 \<and> (1 / 4 :: real) < 1
   \<and> hazard (hd solo) 5 = 1 / 4
   \<and> 0 \<le> hazard (hd solo) 5 \<and> hazard (hd solo) 5 \<le> 1
   \<and> (1 / 4 < hazard (hd solo) 5) = (1 / 4 < min 1 (max 0 (hazard (hd solo) 5)))
   \<and> draws_ok calm
   \<and> 1 \<le> pd_h risky * (real 5 / 2)
   \<and> fst (holdings_loop calm 5 [risky] 0 0) = 0 - 0.6 * sum_list (map weight_h [risky])
   \<and> fst (holdings_loop calm 5 [risky] 0 0) = - 0.12"
proof -
  have a: "1 \<le> pd_h risky * (real 5 / 2)" by (simp add: risky_def)
  then have b: "\<forall>x\<in>set [risky]. 1 \<le> pd_h x * (real 5 / 2)" by simp
  have c: "0 - 0.6 * sum_list (map weight_h [risky]) = (- 0.12 :: real)" by (simp add: risky_def)
  have d: "0 \<le> pd_h (hd solo) \<and> pd_h (hd solo) \<le> 2 / 5 \<and> hazard (hd solo) 5 = 1 / 4"
    by (simp add: solo_def hazard_def)
  from hazard_range [of "hd solo" 5 "1 / 4" calm "[risky]" 0 0] a b c d draws_ok_calm
  show ?thesis by simp
qed

text \<open>
  Claim C6 as stated fails: a holding with default probability 0.5 has the threshold
  1.25 in year 5, and that value is the one compared with the draw.
\<close>

theorem hazard_above_one_counterexample:
  "hazard risky 5 = 5 / 4 \<and> \<not> hazard risky 5 \<le> 1
   \<and> holdings_loop calm 5 [risky] 0 0 = (- 0.12, 3)"
  by (simp add: hazard_def risky_def calm_def box_muller_quarter Let_def)

section \<open>Tickets and the budget\<close>







end
